theory Spec2Isabelle
  imports Complex_Main "HOL-Library.Sublist"
begin

section \<open>Python values used by \<^verbatim>\<open>aktools/core/api.py\<close>\<close>

text \<open>
  Strings are lists of bytes. Every character the source searches for or inserts
  (\<^verbatim>\<open>& = + " '\<close> and the letters of \<^verbatim>\<open>cookie\<close>) is ASCII, and an ASCII byte never
  occurs inside a multi-byte UTF-8 sequence, so replacing and splitting bytes agrees with
  Python's replacing and splitting of code points.

  Exceptions are values. \<open>KeyError\<close> carries \<^verbatim>\<open>str(e)\<close>, the text the handlers put into
  their message; \<open>OtherError\<close> stands for every exception class the source never names
  and carries the name of the class (\<^verbatim>\<open>TypeError\<close>, for one).
\<close>

datatype exn = KeyError string | IndexError | ValueError | OtherError string

definition dquote :: string where
  "dquote = [CHR 0x22]"

definition squote :: string where
  "squote = [CHR 0x27]"

text \<open>\<^verbatim>\<open>s.replace(old, new)\<close> for a one-character \<^verbatim>\<open>old\<close>.\<close>

definition replace_char :: "char \<Rightarrow> string \<Rightarrow> string \<Rightarrow> string" where
  "replace_char old new s = concat (map (\<lambda>c. if c = old then new else [c]) s)"

text \<open>\<^verbatim>\<open>s.split(sep=c, maxsplit=1)\<close> for a one-character separator.\<close>

definition split_once :: "char \<Rightarrow> string \<Rightarrow> string list" where
  "split_once c s =
     (if c \<in> set s then [takeWhile (\<lambda>x. x \<noteq> c) s, tl (dropWhile (\<lambda>x. x \<noteq> c) s)]
      else [s])"

text \<open>\<^verbatim>\<open>sub in s\<close> on strings: \<^verbatim>\<open>sub\<close> occurs in \<^verbatim>\<open>s\<close> as a contiguous substring.\<close>

fun str_contains :: "string \<Rightarrow> string \<Rightarrow> bool" where
  "str_contains sub [] = (sub = [])"
| "str_contains sub (c # cs) = (prefix sub (c # cs) \<or> str_contains sub cs)"

section \<open>Request shaping: browser headers (lines 51-76, 182-197)\<close>

text \<open>
  A Python \<^verbatim>\<open>dict\<close> of headers is a map from field name to value; field names are
  compared as Python compares \<^verbatim>\<open>str\<close> keys, case-sensitively.
  \<^verbatim>\<open>CHROME_USER_AGENT\<close> is fixed once at import time (from \<^verbatim>\<open>fake_useragent\<close>, or the
  fallback literal), so it is a parameter here.
\<close>

type_synonym headers = "string \<rightharpoonup> string"

definition DEFAULT_BROWSER_HEADERS :: "(string \<times> string) list" where
  "DEFAULT_BROWSER_HEADERS =
     [(''Accept'', ''text/html,application/xhtml+xml,application/xml;q=0.9,image/avif,image/webp,image/apng,*/*;q=0.8,application/signed-exchange;v=b3;q=0.7''),
      (''Accept-Language'', ''zh-CN,zh;q=0.9,en;q=0.8,en-GB;q=0.7,en-US;q=0.6''),
      (''Accept-Encoding'', ''gzip, deflate, br''),
      (''Connection'', ''keep-alive''),
      (''Upgrade-Insecure-Requests'', ''1''),
      (''Sec-Fetch-Dest'', ''document''),
      (''Sec-Fetch-Mode'', ''navigate''),
      (''Sec-Fetch-Site'', ''none''),
      (''Sec-Fetch-User'', ''?1''),
      (''Cache-Control'', ''max-age=0''),
      (''Sec-Ch-Ua'', dquote @ ''Not_A Brand'' @ dquote @ '';v='' @ dquote @ ''8'' @ dquote @ '', ''
          @ dquote @ ''Chromium'' @ dquote @ '';v='' @ dquote @ ''120'' @ dquote @ '', ''
          @ dquote @ ''Google Chrome'' @ dquote @ '';v='' @ dquote @ ''120'' @ dquote),
      (''Sec-Ch-Ua-Mobile'', ''?0''),
      (''Sec-Ch-Ua-Platform'', dquote @ ''Windows'' @ dquote)]"

definition get_browser_headers :: "string \<Rightarrow> headers" where
  "get_browser_headers CHROME_USER_AGENT =
     (map_of DEFAULT_BROWSER_HEADERS)(''User-Agent'' \<mapsto> CHROME_USER_AGENT)"

text \<open>
  The keyword arguments of \<^verbatim>\<open>Session.request\<close> that \<^verbatim>\<open>_patched_request\<close> reads and
  writes. \<open>None\<close> stands for both "key absent" and "value is None", which the source
  treats alike. \<open>patched_kwargs\<close> is the \<^verbatim>\<open>kwargs\<close> handed to the original
  \<^verbatim>\<open>Session.request\<close>; \<^verbatim>\<open>PROXIES\<close> is the dictionary built once from the environment.
\<close>

record kwargs =
  kw_headers :: "headers option"
  kw_proxies :: "(string \<rightharpoonup> string) option"

definition patched_kwargs :: "string \<Rightarrow> (string \<rightharpoonup> string) \<Rightarrow> kwargs \<Rightarrow> kwargs" where
  "patched_kwargs CHROME_USER_AGENT PROXIES kw =
     (let kw1 = (case kw_headers kw of
                   None \<Rightarrow> kw\<lparr>kw_headers := Some (get_browser_headers CHROME_USER_AGENT)\<rparr>
                 | Some h \<Rightarrow> kw\<lparr>kw_headers := Some (get_browser_headers CHROME_USER_AGENT ++ h)\<rparr>)
      in if PROXIES \<noteq> Map.empty \<and> kw_proxies kw1 = None
         then kw1\<lparr>kw_proxies := Some PROXIES\<rparr> else kw1)"

section \<open>Building the parameter string (lines 311, 389-399)\<close>

text \<open>
  Both handlers start from \<^verbatim>\<open>decode_params = unquote(str(request.query_params))\<close>.
  \<open>private_eval_str\<close> is line 311; \<open>public_eval_str\<close> is lines 389-399, where
  \<^verbatim>\<open>split(...)[1]\<close> raises \<^verbatim>\<open>IndexError\<close> when there is no \<^verbatim>\<open>=\<close> to split at.
\<close>

definition private_eval_str :: "string \<Rightarrow> string" where
  "private_eval_str decode_params =
     replace_char CHR ''='' (''='' @ dquote)
       (replace_char CHR ''&'' (dquote @ '', '') decode_params) @ dquote"

definition public_eval_str :: "string \<Rightarrow> exn + string" where
  "public_eval_str decode_params =
     (if str_contains ''cookie'' decode_params then
        (let parts = split_once CHR ''='' decode_params in
         if length parts \<le> 1 then Inl IndexError
         else Inr (replace_char CHR ''+'' '' ''
                     (parts ! 0 @ ''='' @ squote @ parts ! 1 @ squote)))
      else Inr (replace_char CHR ''+'' '' '' (private_eval_str decode_params)))"

text \<open>The expression handed to \<^verbatim>\<open>eval\<close> (lines 258-261) and the cache key (line 270).\<close>

definition build_cmd :: "string \<Rightarrow> string option \<Rightarrow> string" where
  "build_cmd item_id eval_str =
     (case eval_str of
        None \<Rightarrow> ''ak.'' @ item_id @ ''()''
      | Some s \<Rightarrow> ''ak.'' @ item_id @ ''('' @ s @ '')'')"

type_synonym cache_key = "string \<times> string option"

definition hashkey :: "string \<Rightarrow> string option \<Rightarrow> cache_key" where
  "hashkey item_id eval_str = (item_id, eval_str)"

section \<open>Admission control: \<^verbatim>\<open>RateLimiter\<close> (lines 79-140)\<close>

text \<open>
  Time stamps are Python floats, read from \<^verbatim>\<open>time.time()\<close>; they are modelled as real
  numbers. The deque \<^verbatim>\<open>request_timestamps\<close> is a list, oldest grant first. The lock makes
  each call of \<^verbatim>\<open>acquire\<close> one atomic step (the sleep happens while the lock is held), so a
  call is a function from the state before to the state after.
\<close>

record RateLimiter =
  max_requests :: int
  window_seconds :: int
  request_timestamps :: "real list"

definition clean_old_requests :: "real \<Rightarrow> RateLimiter \<Rightarrow> RateLimiter" where
  "clean_old_requests current_time rl =
     (let cutoff_time = current_time - real_of_int (window_seconds rl)
      in rl\<lparr>request_timestamps := dropWhile (\<lambda>t. t < cutoff_time) (request_timestamps rl)\<rparr>)"

text \<open>
  \<open>acquire current_time jitter wake rl\<close>: \<open>current_time\<close> is the clock reading of line 111,
  \<open>jitter\<close> the value drawn at line 121, \<open>wake\<close> the clock reading of line 130, after the
  sleep. The result says what the call did: \<open>Inl IndexError\<close> when line 116 reads the head
  of an empty deque, \<open>Inr (Some d)\<close> when it slept for \<open>d\<close> seconds before granting,
  \<open>Inr None\<close> when it granted without sleeping.
\<close>

definition acquire ::
  "real \<Rightarrow> real \<Rightarrow> real \<Rightarrow> RateLimiter \<Rightarrow> (exn + real option) \<times> RateLimiter" where
  "acquire current_time jitter wake rl =
     (let rl1 = clean_old_requests current_time rl in
      if int (length (request_timestamps rl1)) \<ge> max_requests rl1 then
        (case request_timestamps rl1 of
           [] \<Rightarrow> (Inl IndexError, rl1)
         | oldest_request # _ \<Rightarrow>
             (let wait_time = (oldest_request + real_of_int (window_seconds rl1)) - current_time in
              if wait_time > 0 then
                (let total_wait = wait_time + jitter;
                     rl2 = clean_old_requests wake rl1
                 in (Inr (Some total_wait),
                     rl2\<lparr>request_timestamps := request_timestamps rl2 @ [wake]\<rparr>))
              else (Inr None,
                    rl1\<lparr>request_timestamps := request_timestamps rl1 @ [current_time]\<rparr>)))
      else (Inr None, rl1\<lparr>request_timestamps := request_timestamps rl1 @ [current_time]\<rparr>))"

definition get_remaining_requests :: "real \<Rightarrow> RateLimiter \<Rightarrow> int \<times> RateLimiter" where
  "get_remaining_requests t rl =
     (let rl1 = clean_old_requests t rl
      in (max 0 (max_requests rl1 - int (length (request_timestamps rl1))), rl1))"

text \<open>
  A run of \<^verbatim>\<open>acquire\<close> calls, one triple of readings per call; it stops at the first call
  that raises. The sleeps of the calls are collected, in order.
\<close>

fun acquire_run ::
  "(real \<times> real \<times> real) list \<Rightarrow> RateLimiter \<Rightarrow> (exn + real option list) \<times> RateLimiter" where
  "acquire_run [] rl = (Inr [], rl)"
| "acquire_run ((t, j, wk) # rest) rl =
     (case acquire t j wk rl of
        (Inl e, rl') \<Rightarrow> (Inl e, rl')
      | (Inr s, rl') \<Rightarrow>
          (case acquire_run rest rl' of
             (Inl e, rl'') \<Rightarrow> (Inl e, rl'')
           | (Inr ss, rl'') \<Rightarrow> (Inr (s # ss), rl'')))"

text \<open>
  The stamps granted by a run, in order (each call that returns has appended exactly one
  stamp, the last of the deque), and the environment in which the limiter is meant to
  work. \<open>steady prev readings rl\<close> says of a run started after the clock read \<open>prev\<close>:
  the clock never goes back, every jitter is positive, a sleep of \<open>d\<close> seconds ends no
  earlier than \<open>d\<close> seconds after it began, and no call reads the clock at exactly a
  recorded stamp plus the window. \<open>spaced m w hist\<close> says that every stamp of \<open>hist\<close> lies
  more than \<open>w\<close> after the stamp \<open>m\<close> places before it. \<open>grants_within w t gs\<close> counts the
  stamps of \<open>gs\<close> in the trailing window of length \<open>w\<close> that ends at \<open>t\<close>. \<open>limiter_inv\<close> is what a steady run keeps true between the
  grants so far and the deque.
\<close>

fun grant_times :: "(real \<times> real \<times> real) list \<Rightarrow> RateLimiter \<Rightarrow> real list" where
  "grant_times [] rl = []"
| "grant_times ((t, j, wk) # rest) rl =
     (case acquire t j wk rl of
        (Inl e, rl') \<Rightarrow> []
      | (Inr s, rl') \<Rightarrow> last (request_timestamps rl') # grant_times rest rl')"

fun steady :: "real \<Rightarrow> (real \<times> real \<times> real) list \<Rightarrow> RateLimiter \<Rightarrow> bool" where
  "steady prev [] rl = True"
| "steady prev ((t, j, wk) # rest) rl =
     (prev \<le> t \<and> 0 < j
      \<and> (\<forall>s \<in> set (request_timestamps rl). s + real_of_int (window_seconds rl) \<noteq> t)
      \<and> (case acquire t j wk rl of
            (Inr (Some d), rl') \<Rightarrow> t + d \<le> wk \<and> steady wk rest rl'
          | (r, rl') \<Rightarrow> steady t rest rl'))"

definition spaced :: "nat \<Rightarrow> real \<Rightarrow> real list \<Rightarrow> bool" where
  "spaced m w hist \<longleftrightarrow> (\<forall>i. i + m < length hist \<longrightarrow> hist ! i + w < hist ! (i + m))"

definition grants_within :: "real \<Rightarrow> real \<Rightarrow> real list \<Rightarrow> nat" where
  "grants_within w t gs = length (filter (\<lambda>g. t - w < g \<and> g \<le> t) gs)"

definition limiter_inv :: "real list \<Rightarrow> real \<Rightarrow> RateLimiter \<Rightarrow> bool" where
  "limiter_inv hist prev rl \<longleftrightarrow>
     (\<exists>dropped. hist = dropped @ request_timestamps rl
        \<and> (\<forall>x \<in> set dropped. x + real_of_int (window_seconds rl) < prev))
     \<and> (\<forall>x \<in> set hist. x \<le> prev) \<and> sorted hist
     \<and> int (length (request_timestamps rl)) \<le> max_requests rl
     \<and> spaced (nat (max_requests rl)) (real_of_int (window_seconds rl)) hist"

section \<open>The result cache: \<^verbatim>\<open>TTLCache\<close> (line 235)\<close>

text \<open>
  Modelled from the spec: the class \<^verbatim>\<open>cachetools.TTLCache\<close> is imported, not defined in
  the source file. The spec gives its contract: \<^verbatim>\<open>lookup(key) -> Entry | miss\<close>,
  \<^verbatim>\<open>store(key, payload)\<close>, "entries expire ttlSeconds after insertion; capacity bounded at
  maxEntries, evicting least-recently-used on overflow", and an entry inserted at time
  \<open>T\<close> is unreachable at every time \<open>\<ge> T + ttlSeconds\<close>.

  \<open>links\<close> holds the entries, least recently used first, each with the time at which it
  expires. \<open>getitem\<close> is \<^verbatim>\<open>cache[key]\<close>: a missing or expired key raises \<^verbatim>\<open>KeyError\<close>; a
  key that is found becomes the most recently used. \<open>setitem\<close> is \<^verbatim>\<open>cache[key] = value\<close>:
  it first drops every expired entry, refuses a value when the capacity is below one
  entry (\<^verbatim>\<open>ValueError\<close>, as the library does), evicts from the least recently used end until a new key fits,
  and stores the entry as the most recently used one, expiring \<open>ttl\<close> after the store.
\<close>

record ('k, 'v) TTLCache =
  maxsize :: int
  ttl :: int
  links :: "('k \<times> 'v \<times> real) list"

definition expire :: "real \<Rightarrow> ('k, 'v) TTLCache \<Rightarrow> ('k, 'v) TTLCache" where
  "expire t c = c\<lparr>links := filter (\<lambda>(k, v, expires). t < expires) (links c)\<rparr>"

definition getitem :: "real \<Rightarrow> 'k \<Rightarrow> ('k, 'v) TTLCache \<Rightarrow> (exn + 'v) \<times> ('k, 'v) TTLCache" where
  "getitem t key c =
     (case find (\<lambda>l. fst l = key) (links c) of
        None \<Rightarrow> (Inl (KeyError []), c)
      | Some (k, v, expires) \<Rightarrow>
          (let c' = c\<lparr>links := filter (\<lambda>l. fst l \<noteq> key) (links c) @ [(k, v, expires)]\<rparr>
           in if t < expires then (Inr v, c') else (Inl (KeyError []), c')))"

fun evict :: "int \<Rightarrow> 'a list \<Rightarrow> 'a list" where
  "evict m [] = []"
| "evict m (x # xs) = (if int (length (x # xs)) + 1 > m then evict m xs else x # xs)"

definition setitem ::
  "real \<Rightarrow> 'k \<Rightarrow> 'v \<Rightarrow> ('k, 'v) TTLCache \<Rightarrow> (exn + unit) \<times> ('k, 'v) TTLCache" where
  "setitem t key v c =
     (let c1 = expire t c in
      if 1 > maxsize c1 then (Inl ValueError, c1)
      else
        (let kept = (if key \<in> set (map fst (links c1)) then links c1
                     else evict (maxsize c1) (links c1))
         in (Inr (),
             c1\<lparr>links := filter (\<lambda>l. fst l \<noteq> key) kept
                            @ [(key, v, t + real_of_int (ttl c1))]\<rparr>)))"

text \<open>What a lookup at time \<open>t\<close> would return, without the reordering.\<close>

definition lookup :: "real \<Rightarrow> 'k \<Rightarrow> ('k, 'v) TTLCache \<Rightarrow> 'v option" where
  "lookup t key c =
     (case find (\<lambda>l. fst l = key) (links c) of
        None \<Rightarrow> None
      | Some (k, v, expires) \<Rightarrow> if t < expires then Some v else None)"

text \<open>The entry stored under a key (value and expiry time), as the dictionary holds it.\<close>

definition entry_of :: "'k \<Rightarrow> ('k, 'v) TTLCache \<Rightarrow> ('v \<times> real) option" where
  "entry_of key c = map_option snd (find (\<lambda>l. fst l = key) (links c))"

text \<open>
  A run of cache operations (lookups and stores, each with the timer reading it sees),
  and the statement that every entry under a key expires no later than a given time.
\<close>

datatype ('k, 'v) cache_op = Get real 'k | Set real 'k 'v

fun cache_step :: "('k, 'v) cache_op \<Rightarrow> ('k, 'v) TTLCache \<Rightarrow> ('k, 'v) TTLCache" where
  "cache_step (Get t k) c = snd (getitem t k c)"
| "cache_step (Set t k v) c = snd (setitem t k v c)"

definition cache_run :: "('k, 'v) cache_op list \<Rightarrow> ('k, 'v) TTLCache \<Rightarrow> ('k, 'v) TTLCache" where
  "cache_run ops c = fold cache_step ops c"

definition expires_by :: "'k \<Rightarrow> real \<Rightarrow> ('k, 'v) TTLCache \<Rightarrow> bool" where
  "expires_by key b c \<longleftrightarrow> (\<forall>l \<in> set (links c). fst l = key \<longrightarrow> snd (snd l) \<le> b)"

section \<open>The gateway: \<^verbatim>\<open>invoke_ak_api\<close> (lines 238-276)\<close>

text \<open>
  The provider library is opaque: \<open>ak\<close> maps the expression given to \<^verbatim>\<open>eval\<close> to what
  evaluating it and serialising the frame does. \<open>Returns None\<close> is a call that gave no
  frame, \<open>Returns (Some j)\<close> one whose frame serialises to the JSON text \<open>j\<close>, and
  \<open>Raises e\<close> one that raised.

  The process-wide state is the limiter, the cache and, as a ghost field, the list of
  expressions evaluated so far. \<open>clock\<close> holds the readings one call of
  \<^verbatim>\<open>invoke_ak_api\<close> may take, in program order: the cache's timer at the lookup, the
  three inputs of \<open>acquire\<close>, the wall clock inside \<^verbatim>\<open>get_remaining_requests\<close> (the
  f-string of line 255 calls it), and the cache's timer at the store.
\<close>

datatype provider_result = Raises exn | Returns "string option"

record world =
  rate_limiter :: RateLimiter
  api_cache :: "(cache_key, string option) TTLCache"
  provider_calls :: "string list"

record clock =
  t_lookup :: real
  t_acquire :: real
  jitter_drawn :: real
  t_wake :: real
  t_remaining :: real
  t_store :: real

definition fetch ::
  "(string \<Rightarrow> provider_result) \<Rightarrow> clock \<Rightarrow> string \<Rightarrow> string option \<Rightarrow> world
     \<Rightarrow> (exn + string option) \<times> world" where
  "fetch ak clk item_id eval_str w =
     (case acquire (t_acquire clk) (jitter_drawn clk) (t_wake clk) (rate_limiter w) of
        (Inl e, rl) \<Rightarrow> (Inl e, w\<lparr>rate_limiter := rl\<rparr>)
      | (Inr slept, rl) \<Rightarrow>
          (let rl' = snd (get_remaining_requests (t_remaining clk) rl);
               cmd = build_cmd item_id eval_str;
               w' = w\<lparr>rate_limiter := rl', provider_calls := provider_calls w @ [cmd]\<rparr>
           in case ak cmd of
                Raises e \<Rightarrow> (Inl e, w')
              | Returns received \<Rightarrow> (Inr received, w')))"

definition invoke_ak_api ::
  "bool \<Rightarrow> (string \<Rightarrow> provider_result) \<Rightarrow> clock \<Rightarrow> string \<Rightarrow> string option \<Rightarrow> world
     \<Rightarrow> (exn + string option \<times> string) \<times> world" where
  "invoke_ak_api enable_cache ak clk item_id eval_str w =
     (if \<not> enable_cache then
        (case fetch ak clk item_id eval_str w of
           (Inl e, w') \<Rightarrow> (Inl e, w')
         | (Inr res, w') \<Rightarrow> (Inr (res, ''DISABLED''), w'))
      else
        (let key = hashkey item_id eval_str in
         case getitem (t_lookup clk) key (api_cache w) of
           (Inr v, c) \<Rightarrow> (Inr (v, ''HIT''), w\<lparr>api_cache := c\<rparr>)
         | (Inl (KeyError d), c) \<Rightarrow>
             (case fetch ak clk item_id eval_str (w\<lparr>api_cache := c\<rparr>) of
                (Inl e, w') \<Rightarrow> (Inl e, w')
              | (Inr res, w') \<Rightarrow>
                  (case setitem (t_store clk) key res (api_cache w') of
                     (Inl e, c') \<Rightarrow> (Inl e, w'\<lparr>api_cache := c'\<rparr>)
                   | (Inr u, c') \<Rightarrow> (Inr (res, ''MISS''), w'\<lparr>api_cache := c'\<rparr>)))
         | (Inl e, c) \<Rightarrow> (Inl e, w\<lparr>api_cache := c\<rparr>)))"

section \<open>The handlers \<^verbatim>\<open>private_root\<close> and \<^verbatim>\<open>public_root\<close> (lines 284-459)\<close>

text \<open>
  A response is its status code, its content and its headers. The three error texts of
  the source are fixed sentences (the third has \<^verbatim>\<open>str(e)\<close> of the caught \<^verbatim>\<open>KeyError\<close>
  spliced in); the content type names which one was sent. \<open>Json_data j\<close> is
  \<^verbatim>\<open>json.loads\<close> of the payload \<open>j\<close>.

  Of the request the handlers read \<^verbatim>\<open>unquote(str(request.query_params))\<close>
  (\<open>req_decoded\<close>) and \<^verbatim>\<open>bool(request.query_params)\<close> (\<open>req_nonempty\<close>).
  \<open>interface_list\<close> is \<^verbatim>\<open>dir(ak)\<close>, read afresh by each call. An exception that leaves a
  handler (\<open>Inl\<close>) goes to the web framework. The login check of \<^verbatim>\<open>private_root\<close>
  (\<^verbatim>\<open>current_user\<close>) is done by the framework before the body runs and is not part of
  the model.
\<close>

datatype content =
    Error_interface_not_found
  | Error_empty_data
  | Error_bad_params string
  | Json_data string

datatype response = JSONResponse (status_code: nat) (body: content) (sent_headers: "(string \<times> string) list")

record request =
  req_decoded :: string
  req_nonempty :: bool

text \<open>
  The \<^verbatim>\<open>try\<close> block around \<^verbatim>\<open>invoke_ak_api\<close> and the response after it; the source writes
  this text four times (lines 313-334, 336-357, 401-429, 431-459), the same but for
  logging.
\<close>

definition respond :: "(exn + string option \<times> string) \<times> world \<Rightarrow> (exn + response) \<times> world" where
  "respond r =
     (case r of
        (Inr (None, cache_status), w) \<Rightarrow>
          (Inr (JSONResponse 404 Error_empty_data [(''X-Cache-Status'', cache_status)]), w)
      | (Inr (Some temp_df, cache_status), w) \<Rightarrow>
          (Inr (JSONResponse 200 (Json_data temp_df) [(''X-Cache-Status'', cache_status)]), w)
      | (Inl (KeyError e), w) \<Rightarrow> (Inr (JSONResponse 404 (Error_bad_params e) []), w)
      | (Inl e, w) \<Rightarrow> (Inl e, w))"

definition private_root ::
  "bool \<Rightarrow> string list \<Rightarrow> (string \<Rightarrow> provider_result) \<Rightarrow> clock \<Rightarrow> request \<Rightarrow> string \<Rightarrow> world
     \<Rightarrow> (exn + response) \<times> world" where
  "private_root enable_cache interface_list ak clk req item_id w =
     (let decode_params = req_decoded req in
      if item_id \<notin> set interface_list then
        (Inr (JSONResponse 404 Error_interface_not_found []), w)
      else
        (let eval_str = private_eval_str decode_params in
         if \<not> req_nonempty req then respond (invoke_ak_api enable_cache ak clk item_id None w)
         else respond (invoke_ak_api enable_cache ak clk item_id (Some eval_str) w)))"

definition public_root ::
  "bool \<Rightarrow> string list \<Rightarrow> (string \<Rightarrow> provider_result) \<Rightarrow> clock \<Rightarrow> request \<Rightarrow> string \<Rightarrow> world
     \<Rightarrow> (exn + response) \<times> world" where
  "public_root enable_cache interface_list ak clk req item_id w =
     (let decode_params = req_decoded req in
      if item_id \<notin> set interface_list then
        (Inr (JSONResponse 404 Error_interface_not_found []), w)
      else
        (case public_eval_str decode_params of
           Inl e \<Rightarrow> (Inl e, w)
         | Inr eval_str \<Rightarrow>
             if \<not> req_nonempty req then respond (invoke_ak_api enable_cache ak clk item_id None w)
             else respond (invoke_ak_api enable_cache ak clk item_id (Some eval_str) w)))"

text \<open>
  The second argument a handler gives to \<^verbatim>\<open>invoke_ak_api\<close> (\<^verbatim>\<open>None\<close> when the request has
  no query parameters, else the parameter string), and the response a handler sends for a
  payload found in the cache.
\<close>

definition passed_params :: "request \<Rightarrow> string \<Rightarrow> string option" where
  "passed_params req eval_str = (if \<not> req_nonempty req then None else Some eval_str)"

definition hit_response :: "string option \<Rightarrow> response" where
  "hit_response v =
     (case v of
        None \<Rightarrow> JSONResponse 404 Error_empty_data [(''X-Cache-Status'', ''HIT'')]
      | Some j \<Rightarrow> JSONResponse 200 (Json_data j) [(''X-Cache-Status'', ''HIT'')])"

section \<open>Concrete inputs\<close>

text \<open>Inputs at which the theorems below are evaluated.\<close>

definition curl_kwargs :: kwargs where
  "curl_kwargs = \<lparr>kw_headers = Some [''User-Agent'' \<mapsto> ''curl/8''], kw_proxies = None\<rparr>"

definition bare_kwargs :: kwargs where
  "bare_kwargs = \<lparr>kw_headers = None, kw_proxies = None\<rparr>"

definition plus_query :: string where
  "plus_query = ''symbol=a+b''"

definition cookie_query :: string where
  "cookie_query = ''cookie=k=v&x''"

definition limiter0 :: RateLimiter where
  "limiter0 = \<lparr>max_requests = 10, window_seconds = 60, request_timestamps = []\<rparr>"

definition cache0 :: "(cache_key, string option) TTLCache" where
  "cache0 = \<lparr>maxsize = 128, ttl = 3600, links = []\<rparr>"

definition world0 :: world where
  "world0 = \<lparr>rate_limiter = limiter0, api_cache = cache0, provider_calls = []\<rparr>"

definition clock0 :: clock where
  "clock0 = \<lparr>t_lookup = 0, t_acquire = 1000, jitter_drawn = 1 / 4, t_wake = 1000,
              t_remaining = 1000, t_store = 1\<rparr>"

definition clock1 :: clock where
  "clock1 = \<lparr>t_lookup = 100, t_acquire = 1100, jitter_drawn = 1 / 4, t_wake = 1100,
              t_remaining = 1100, t_store = 101\<rparr>"

definition frame_provider :: "string \<Rightarrow> provider_result" where
  "frame_provider cmd = Returns (Some ''[]'')"

definition silent_provider :: "string \<Rightarrow> provider_result" where
  "silent_provider cmd = Returns None"

definition rejecting_provider :: "string \<Rightarrow> provider_result" where
  "rejecting_provider cmd = Raises (KeyError (squote @ ''symbol'' @ squote))"

definition failing_provider :: "string \<Rightarrow> provider_result" where
  "failing_provider cmd = Raises (OtherError ''TypeError'')"

definition world1 :: world where
  "world1 =
     \<lparr>rate_limiter = \<lparr>max_requests = 10, window_seconds = 60, request_timestamps = [1000]\<rparr>,
      api_cache = \<lparr>maxsize = 128, ttl = 3600,
                    links = [((''stock_x'', None), Some ''[]'', 3601)]\<rparr>,
      provider_calls = [''ak.stock_x()'']\<rparr>"

definition no_params :: request where
  "no_params = \<lparr>req_decoded = [], req_nonempty = False\<rparr>"

definition symbol_request :: request where
  "symbol_request = \<lparr>req_decoded = ''symbol=000001'', req_nonempty = True\<rparr>"

definition stale_world :: world where
  "stale_world =
     \<lparr>rate_limiter = limiter0,
      api_cache = \<lparr>maxsize = 128, ttl = 3600, links = [((''gone'', None), Some ''[]'', 3601)]\<rparr>,
      provider_calls = []\<rparr>"

definition small_cache :: "(cache_key, string option) TTLCache" where
  "small_cache = \<lparr>maxsize = 2, ttl = 3600, links = []\<rparr>"

definition key_a :: cache_key where "key_a = (''stock_a'', None)"
definition key_b :: cache_key where "key_b = (''stock_b'', None)"
definition key_c :: cache_key where "key_c = (''stock_c'', None)"

definition lru_ops :: "(cache_key, string option) cache_op list" where
  "lru_ops = [Set 0 key_a (Some ''[1]''), Set 1 key_b (Some ''[2]''), Get 2 key_a]"

definition key_x :: cache_key where "key_x = (''stock_x'', None)"

definition idle_ops :: "(cache_key, string option) cache_op list" where
  "idle_ops = [Get 50 key_x, Set 60 (''stock_y'', None) None]"

definition late_clock :: clock where
  "late_clock = \<lparr>t_lookup = 3601, t_acquire = 5000, jitter_drawn = 1 / 4, t_wake = 5000,
                  t_remaining = 5000, t_store = 3602\<rparr>"

definition idle_world :: world where
  "idle_world =
     \<lparr>rate_limiter = limiter0,
      api_cache = cache_run idle_ops (snd (setitem 1 key_x (Some ''[]'') cache0)),
      provider_calls = [''ak.stock_x()'']\<rparr>"

definition scenario_limiter :: RateLimiter where
  "scenario_limiter = \<lparr>max_requests = 2, window_seconds = 60, request_timestamps = []\<rparr>"

definition scenario_readings :: "(real \<times> real \<times> real) list" where
  "scenario_readings = [(0, 1 / 4, 0), (1, 1 / 4, 1), (2, 1 / 4, 241 / 4)]"

definition boundary_limiter :: RateLimiter where
  "boundary_limiter = \<lparr>max_requests = 1, window_seconds = 60, request_timestamps = []\<rparr>"

definition boundary_readings :: "(real \<times> real \<times> real) list" where
  "boundary_readings = [(0, 1 / 4, 0), (60, 1 / 4, 60), (60, 1 / 4, 60)]"

text \<open>The definitions to unfold when a call is evaluated at these inputs.\<close>

lemmas eval_defs = invoke_ak_api_def getitem_def fetch_def acquire_def clean_old_requests_def
  get_remaining_requests_def setitem_def expire_def build_cmd_def hashkey_def Let_def lookup_def
  entry_of_def limiter0_def cache0_def world0_def world1_def stale_world_def clock0_def clock1_def
  frame_provider_def silent_provider_def rejecting_provider_def failing_provider_def

lemmas handler_defs = private_root_def public_root_def public_eval_str_def private_eval_str_def
  respond_def replace_char_def split_once_def no_params_def symbol_request_def passed_params_def
  hit_response_def

lemmas cache_defs = cache_run_def setitem_def getitem_def expire_def lookup_def Let_def
  small_cache_def key_a_def key_b_def key_c_def lru_ops_def cache0_def hashkey_def

section \<open>The request shaper's headers\<close>

text \<open>
  C9. The headers of every call that goes through \<^verbatim>\<open>_patched_request\<close>: when the caller
  gave none, they are exactly the browser header set; when the caller gave some, every
  field of the browser header set is present, with the caller's value where the caller
  gave that field and the browser's value otherwise, and every field of the caller keeps
  the caller's value.
\<close>

theorem patched_request_headers:
  "(case kw_headers kw of
      None \<Rightarrow> kw_headers (patched_kwargs ua PROXIES kw) = Some (get_browser_headers ua)
    | Some h \<Rightarrow>
        (\<exists>hs. kw_headers (patched_kwargs ua PROXIES kw) = Some hs
           \<and> (\<forall>f \<in> dom (get_browser_headers ua).
                 hs f = (if f \<in> dom h then h f else get_browser_headers ua f))
           \<and> (\<forall>f \<in> dom h. hs f = h f)))"
  by (auto simp: patched_kwargs_def Let_def map_add_def split: option.splits)

theorem patched_request_headers_witness:
  "(\<exists>hs. kw_headers (patched_kwargs ''Chrome'' Map.empty curl_kwargs) = Some hs
      \<and> hs ''User-Agent'' = Some ''curl/8''
      \<and> hs ''Connection'' = Some ''keep-alive'')
   \<and> kw_headers (patched_kwargs ''Chrome'' Map.empty bare_kwargs)
        = Some (get_browser_headers ''Chrome'')"
proof -
  have ua: "''User-Agent'' \<in> dom (get_browser_headers ''Chrome'')"
    by (simp add: get_browser_headers_def)
  have co: "''Connection'' \<in> dom (get_browser_headers ''Chrome'')"
    by (simp add: get_browser_headers_def DEFAULT_BROWSER_HEADERS_def)
  have cv: "get_browser_headers ''Chrome'' ''Connection'' = Some ''keep-alive''"
    by (simp add: get_browser_headers_def DEFAULT_BROWSER_HEADERS_def)
  from patched_request_headers
         [where kw = curl_kwargs and ua = "''Chrome''" and PROXIES = Map.empty]
  obtain hs where hs: "kw_headers (patched_kwargs ''Chrome'' Map.empty curl_kwargs) = Some hs"
    and f: "\<forall>f \<in> dom (get_browser_headers ''Chrome'').
              hs f = (if f \<in> dom [''User-Agent'' \<mapsto> ''curl/8'']
                      then [''User-Agent'' \<mapsto> ''curl/8''] f
                      else get_browser_headers ''Chrome'' f)"
    by (auto simp: curl_kwargs_def)
  from f ua have "hs ''User-Agent'' = Some ''curl/8''" by simp
  moreover from f co cv have "hs ''Connection'' = Some ''keep-alive''" by simp
  moreover from patched_request_headers
                  [where kw = bare_kwargs and ua = "''Chrome''" and PROXIES = Map.empty]
  have "kw_headers (patched_kwargs ''Chrome'' Map.empty bare_kwargs)
          = Some (get_browser_headers ''Chrome'')"
    by (simp add: bare_kwargs_def)
  ultimately show ?thesis using hs by blast
qed

section \<open>The two handlers' parameter strings\<close>

lemma replace_char_append:
  "replace_char old new (xs @ ys) = replace_char old new xs @ replace_char old new ys"
  by (simp add: replace_char_def)

lemma replace_char_absent:
  "old \<notin> set new \<Longrightarrow> old \<notin> set (replace_char old new s)"
  by (induction s) (auto simp: replace_char_def)

lemma replace_char_keeps:
  "c \<in> set s \<Longrightarrow> c \<noteq> old \<Longrightarrow> c \<in> set (replace_char old new s)"
  by (induction s) (auto simp: replace_char_def)

text \<open>The private string always ends in a double quote.\<close>

lemma private_eval_str_last: "last (private_eval_str q) = CHR 0x22"
  by (simp add: private_eval_str_def dquote_def)

lemma private_eval_str_plus:
  "CHR ''+'' \<in> set q \<Longrightarrow> CHR ''+'' \<in> set (private_eval_str q)"
  by (simp add: private_eval_str_def replace_char_keeps)

text \<open>The public string of the \<^verbatim>\<open>cookie\<close> branch always ends in a single quote.\<close>

lemma public_cookie_last:
  "last (replace_char CHR ''+'' '' '' (a @ ''='' @ squote @ b @ squote)) = CHR 0x27"
  by (simp add: replace_char_append) (simp add: replace_char_def squote_def)

lemma public_differs_cookie:
  assumes "str_contains ''cookie'' q"
  shows "public_eval_str q \<noteq> Inr (private_eval_str q)"
proof (cases "length (split_once CHR ''='' q) \<le> 1")
  case True
  with assms show ?thesis by (simp add: public_eval_str_def)
next
  case False
  with assms have "public_eval_str q =
      Inr (replace_char CHR ''+'' '' ''
            (split_once CHR ''='' q ! 0 @ ''='' @ squote @ split_once CHR ''='' q ! 1 @ squote))"
    by (simp add: public_eval_str_def Let_def)
  moreover have "last (replace_char CHR ''+'' '' ''
            (split_once CHR ''='' q ! 0 @ ''='' @ squote @ split_once CHR ''='' q ! 1 @ squote))
          \<noteq> last (private_eval_str q)"
    by (simp only: public_cookie_last private_eval_str_last) simp
  ultimately show ?thesis by auto
qed

lemma public_differs_plus:
  assumes "\<not> str_contains ''cookie'' q" and "CHR ''+'' \<in> set q"
  shows "public_eval_str q \<noteq> Inr (private_eval_str q)"
proof -
  have "CHR ''+'' \<notin> set (replace_char CHR ''+'' '' '' (private_eval_str q))"
    by (rule replace_char_absent) simp
  moreover have "CHR ''+'' \<in> set (private_eval_str q)"
    using assms(2) by (rule private_eval_str_plus)
  ultimately have "replace_char CHR ''+'' '' '' (private_eval_str q) \<noteq> private_eval_str q"
    by metis
  with assms(1) show ?thesis by (simp add: public_eval_str_def)
qed

text \<open>
  C10. For every decoded query string that contains \<^verbatim>\<open>+\<close> or \<^verbatim>\<open>cookie\<close>, the parameter
  string built by \<^verbatim>\<open>public_root\<close> is not the one built by \<^verbatim>\<open>private_root\<close> (it is another
  string, or building it raises); so for the same operation the expression evaluated
  against the provider and the cache key differ between the two endpoints.
\<close>

theorem endpoints_build_different_parameter_strings:
  assumes "CHR ''+'' \<in> set q \<or> str_contains ''cookie'' q"
  shows "public_eval_str q \<noteq> Inr (private_eval_str q)
     \<and> (\<forall>s. public_eval_str q = Inr s \<longrightarrow>
           s \<noteq> private_eval_str q
         \<and> build_cmd item_id (Some s) \<noteq> build_cmd item_id (Some (private_eval_str q))
         \<and> hashkey item_id (Some s) \<noteq> hashkey item_id (Some (private_eval_str q)))"
proof -
  have "public_eval_str q \<noteq> Inr (private_eval_str q)"
    using assms public_differs_cookie public_differs_plus by blast
  then show ?thesis by (auto simp: build_cmd_def hashkey_def)
qed

theorem endpoints_build_different_parameter_strings_witness:
  "CHR ''+'' \<in> set plus_query
   \<and> private_eval_str plus_query = ''symbol='' @ dquote @ ''a+b'' @ dquote
   \<and> public_eval_str plus_query = Inr (''symbol='' @ dquote @ ''a b'' @ dquote)
   \<and> build_cmd ''stock_zh_a_hist'' (Some (''symbol='' @ dquote @ ''a b'' @ dquote))
       \<noteq> build_cmd ''stock_zh_a_hist'' (Some (private_eval_str plus_query))
   \<and> str_contains ''cookie'' cookie_query
   \<and> private_eval_str cookie_query
       = ''cookie='' @ dquote @ ''k='' @ dquote @ ''v'' @ dquote @ '', x'' @ dquote
   \<and> public_eval_str cookie_query = Inr (''cookie='' @ squote @ ''k=v&x'' @ squote)
   \<and> hashkey ''stock_zh_a_hist'' (Some (''cookie='' @ squote @ ''k=v&x'' @ squote))
       \<noteq> hashkey ''stock_zh_a_hist'' (Some (private_eval_str cookie_query))"
proof -
  have p: "CHR ''+'' \<in> set plus_query"
    by (simp add: plus_query_def)
  have c: "str_contains ''cookie'' cookie_query"
    by (simp add: cookie_query_def)
  have pp: "public_eval_str plus_query = Inr (''symbol='' @ dquote @ ''a b'' @ dquote)"
    by (simp add: plus_query_def public_eval_str_def private_eval_str_def replace_char_def
          dquote_def)
  have pc: "public_eval_str cookie_query = Inr (''cookie='' @ squote @ ''k=v&x'' @ squote)"
    by (simp add: cookie_query_def public_eval_str_def split_once_def replace_char_def
          squote_def)
  have vp: "private_eval_str plus_query = ''symbol='' @ dquote @ ''a+b'' @ dquote"
    by (simp add: plus_query_def private_eval_str_def replace_char_def dquote_def)
  have vc: "private_eval_str cookie_query
              = ''cookie='' @ dquote @ ''k='' @ dquote @ ''v'' @ dquote @ '', x'' @ dquote"
    by (simp add: cookie_query_def private_eval_str_def replace_char_def dquote_def)
  from endpoints_build_different_parameter_strings
         [where q = plus_query and item_id = "''stock_zh_a_hist''"] p pp
  have "build_cmd ''stock_zh_a_hist'' (Some (''symbol='' @ dquote @ ''a b'' @ dquote))
          \<noteq> build_cmd ''stock_zh_a_hist'' (Some (private_eval_str plus_query))"
    by blast
  moreover
  from endpoints_build_different_parameter_strings
         [where q = cookie_query and item_id = "''stock_zh_a_hist''"] c pc
  have "hashkey ''stock_zh_a_hist'' (Some (''cookie='' @ squote @ ''k=v&x'' @ squote))
          \<noteq> hashkey ''stock_zh_a_hist'' (Some (private_eval_str cookie_query))"
    by blast
  ultimately show ?thesis using p c pp pc vp vc by blast
qed

section \<open>Lemmas about the cache and the fetch\<close>

lemma find_key_append:
  "find P (xs @ ys) = (case find P xs of None \<Rightarrow> find P ys | Some x \<Rightarrow> Some x)"
  by (induction xs) auto

lemma find_key_filter_same:
  "find (\<lambda>l. fst l = key) (filter (\<lambda>l. fst l \<noteq> key) xs) = None"
  by (induction xs) auto

lemma find_key_filter_other:
  "k \<noteq> key \<Longrightarrow>
   find (\<lambda>l. fst l = k) (filter (\<lambda>l. fst l \<noteq> key) xs) = find (\<lambda>l. fst l = k) xs"
  by (induction xs) auto

lemma find_key_fst: "find (\<lambda>l. fst l = key) xs = Some (k, y) \<Longrightarrow> k = key"
  by (induction xs) (auto split: if_splits)

lemma find_moved:
  "find (\<lambda>l. fst l = k) (filter (\<lambda>l. fst l \<noteq> key) xs @ [(key, y)])
     = (if k = key then Some (key, y) else find (\<lambda>l. fst l = k) xs)"
  by (simp add: find_key_append find_key_filter_same find_key_filter_other split: option.splits)

lemma getitem_frame:
  "maxsize (snd (getitem t key c)) = maxsize c \<and> ttl (snd (getitem t key c)) = ttl c"
  by (auto simp: getitem_def Let_def split: option.splits prod.splits)

lemma getitem_entry_of:
  "entry_of k (snd (getitem t key c)) = entry_of k c"
proof (cases "find (\<lambda>l. fst l = key) (links c)")
  case None
  then show ?thesis by (simp add: getitem_def)
next
  case (Some x)
  obtain k' v e where x: "x = (k', v, e)" by (cases x)
  with Some have "k' = key" using find_key_fst by fastforce
  with Some x show ?thesis
    by (auto simp: getitem_def Let_def entry_of_def find_moved)
qed

lemma getitem_result:
  "fst (getitem t key c) = (case lookup t key c of None \<Rightarrow> Inl (KeyError []) | Some v \<Rightarrow> Inr v)"
  by (auto simp: getitem_def lookup_def Let_def split: option.splits)

lemma lookup_entry_of:
  "lookup t key c = (case entry_of key c of None \<Rightarrow> None | Some (v, e) \<Rightarrow> if t < e then Some v else None)"
  by (auto simp: lookup_def entry_of_def split: option.splits)

lemma setitem_stores:
  assumes "1 \<le> maxsize c"
  shows "fst (setitem t key v c) = Inr ()
     \<and> entry_of key (snd (setitem t key v c)) = Some (v, t + real_of_int (ttl c))
     \<and> maxsize (snd (setitem t key v c)) = maxsize c \<and> ttl (snd (setitem t key v c)) = ttl c"
  using assms by (simp add: setitem_def expire_def Let_def entry_of_def find_moved)

lemma clean_frame:
  "max_requests (clean_old_requests t rl) = max_requests rl
   \<and> window_seconds (clean_old_requests t rl) = window_seconds rl"
  by (simp add: clean_old_requests_def Let_def)

lemma acquire_grants:
  assumes "1 \<le> max_requests rl"
  shows "\<exists>s. fst (acquire t j wk rl) = Inr s"
  using assms
  by (cases "request_timestamps (clean_old_requests t rl)")
     (auto simp: acquire_def Let_def clean_frame)

lemma fetch_cache: "api_cache (snd (fetch ak clk item_id es w)) = api_cache w"
  by (auto simp: fetch_def Let_def split: prod.splits sum.splits provider_result.splits)

lemma fetch_returns:
  assumes "fetch ak clk item_id es w = (Inr r, w')"
  shows "ak (build_cmd item_id es) = Returns r
     \<and> provider_calls w' = provider_calls w @ [build_cmd item_id es]"
  using assms
  by (auto simp: fetch_def Let_def split: prod.splits sum.splits provider_result.splits)

lemma fetch_granted:
  assumes "1 \<le> max_requests (rate_limiter w)"
  shows "fst (fetch ak clk item_id es w)
           = (case ak (build_cmd item_id es) of Raises e \<Rightarrow> Inl e | Returns r \<Rightarrow> Inr r)
     \<and> provider_calls (snd (fetch ak clk item_id es w))
           = provider_calls w @ [build_cmd item_id es]"
proof -
  from assms obtain s where "fst (acquire (t_acquire clk) (jitter_drawn clk) (t_wake clk) (rate_limiter w)) = Inr s"
    using acquire_grants by blast
  then show ?thesis
    by (auto simp: fetch_def Let_def split: prod.splits sum.splits provider_result.splits)
qed

lemma fetch_independent_of_cache:
  "fst (fetch ak clk item_id es (w\<lparr>api_cache := c\<rparr>)) = fst (fetch ak clk item_id es w)
   \<and> provider_calls (snd (fetch ak clk item_id es (w\<lparr>api_cache := c\<rparr>)))
       = provider_calls (snd (fetch ak clk item_id es w))
   \<and> rate_limiter (snd (fetch ak clk item_id es (w\<lparr>api_cache := c\<rparr>)))
       = rate_limiter (snd (fetch ak clk item_id es w))"
  by (auto simp: fetch_def Let_def split: prod.splits sum.splits provider_result.splits)

lemma invoke_hit:
  assumes "lookup (t_lookup clk) (hashkey item_id es) (api_cache w) = Some v"
  shows "invoke_ak_api True ak clk item_id es w
           = (Inr (v, ''HIT''),
              w\<lparr>api_cache := snd (getitem (t_lookup clk) (hashkey item_id es) (api_cache w))\<rparr>)"
proof -
  have "fst (getitem (t_lookup clk) (hashkey item_id es) (api_cache w)) = Inr v"
    using assms by (simp add: getitem_result)
  then show ?thesis
    by (cases "getitem (t_lookup clk) (hashkey item_id es) (api_cache w)")
       (simp add: invoke_ak_api_def)
qed

lemma invoke_miss:
  assumes "lookup (t_lookup clk) (hashkey item_id es) (api_cache w) = None"
  shows "invoke_ak_api True ak clk item_id es w
           = (case fetch ak clk item_id es
                     (w\<lparr>api_cache := snd (getitem (t_lookup clk) (hashkey item_id es) (api_cache w))\<rparr>) of
                (Inl e, w') \<Rightarrow> (Inl e, w')
              | (Inr res, w') \<Rightarrow>
                  (case setitem (t_store clk) (hashkey item_id es) res (api_cache w') of
                     (Inl e, c') \<Rightarrow> (Inl e, w'\<lparr>api_cache := c'\<rparr>)
                   | (Inr u, c') \<Rightarrow> (Inr (res, ''MISS''), w'\<lparr>api_cache := c'\<rparr>)))"
proof -
  have "fst (getitem (t_lookup clk) (hashkey item_id es) (api_cache w)) = Inl (KeyError [])"
    using assms by (simp add: getitem_result)
  then show ?thesis
    by (cases "getitem (t_lookup clk) (hashkey item_id es) (api_cache w)")
       (simp add: invoke_ak_api_def)
qed

lemma invoke_disabled:
  "invoke_ak_api False ak clk item_id es w
     = (case fetch ak clk item_id es w of
          (Inl e, w') \<Rightarrow> (Inl e, w')
        | (Inr res, w') \<Rightarrow> (Inr (res, ''DISABLED''), w'))"
  by (simp add: invoke_ak_api_def)

lemma setitem_ok_maxsize:
  "fst (setitem t key v c) = Inr u \<Longrightarrow> 1 \<le> maxsize c"
  by (auto simp: setitem_def expire_def Let_def split: if_splits)

lemma invoke_hit_frame:
  assumes "lookup (t_lookup clk) (hashkey item_id es) (api_cache w) = Some v"
  shows "fst (invoke_ak_api True ak clk item_id es w) = Inr (v, ''HIT'')
     \<and> provider_calls (snd (invoke_ak_api True ak clk item_id es w)) = provider_calls w
     \<and> rate_limiter (snd (invoke_ak_api True ak clk item_id es w)) = rate_limiter w
     \<and> (\<forall>k. entry_of k (api_cache (snd (invoke_ak_api True ak clk item_id es w)))
             = entry_of k (api_cache w))"
  by (simp add: invoke_hit [OF assms] getitem_entry_of)

lemma invoke_miss_returns:
  assumes miss: "lookup (t_lookup clk) (hashkey item_id es) (api_cache w) = None"
    and ret: "invoke_ak_api True ak clk item_id es w = (Inr (p, s), w1)"
  shows "s = ''MISS''
     \<and> ak (build_cmd item_id es) = Returns p
     \<and> provider_calls w1 = provider_calls w @ [build_cmd item_id es]
     \<and> entry_of (hashkey item_id es) (api_cache w1)
         = Some (p, t_store clk + real_of_int (ttl (api_cache w)))"
proof -
  let ?key = "hashkey item_id es"
  let ?c = "snd (getitem (t_lookup clk) ?key (api_cache w))"
  let ?w = "w\<lparr>api_cache := ?c\<rparr>"
  obtain r w' where f: "fetch ak clk item_id es ?w = (r, w')"
    by (cases "fetch ak clk item_id es ?w")
  obtain u c' where st: "setitem (t_store clk) ?key p (api_cache w') = (u, c')"
    by (cases "setitem (t_store clk) ?key p (api_cache w')")
  from ret f have r: "r = Inr p"
    by (auto simp: invoke_miss [OF miss] split: sum.splits prod.splits)
  with ret f st have u: "u = Inr ()" and s: "s = ''MISS''" and w1: "w1 = w'\<lparr>api_cache := c'\<rparr>"
    by (auto simp: invoke_miss [OF miss] split: sum.splits prod.splits)
  from f r have fr: "fetch ak clk item_id es ?w = (Inr p, w')" by simp
  have cw': "api_cache w' = ?c"
    using fetch_cache [where ak = ak and clk = clk and item_id = item_id and es = es and w = ?w] f
    by simp
  from st u have "1 \<le> maxsize (api_cache w')"
    using setitem_ok_maxsize [where t = "t_store clk" and key = ?key and v = p
                                and c = "api_cache w'" and u = "()"]
    by simp
  from setitem_stores [OF this, where t = "t_store clk" and key = ?key and v = p] st
  have "entry_of ?key c' = Some (p, t_store clk + real_of_int (ttl (api_cache w')))"
    by simp
  then have "entry_of ?key (api_cache w1)
               = Some (p, t_store clk + real_of_int (ttl (api_cache w)))"
    by (simp add: w1 cw' getitem_frame)
  moreover from fetch_returns [OF fr]
  have "ak (build_cmd item_id es) = Returns p"
    and "provider_calls w1 = provider_calls w @ [build_cmd item_id es]"
    by (simp_all add: w1)
  ultimately show ?thesis using s by simp
qed

lemma private_root_known:
  assumes "item_id \<in> set interface_list"
  shows "private_root enable_cache interface_list ak clk req item_id w
           = respond (invoke_ak_api enable_cache ak clk item_id
                        (passed_params req (private_eval_str (req_decoded req))) w)"
  using assms by (simp add: private_root_def passed_params_def Let_def)

lemma public_root_known:
  assumes "item_id \<in> set interface_list" and "public_eval_str (req_decoded req) = Inr s"
  shows "public_root enable_cache interface_list ak clk req item_id w
           = respond (invoke_ak_api enable_cache ak clk item_id (passed_params req s) w)"
  using assms by (simp add: public_root_def passed_params_def Let_def)

lemma respond_snd: "snd (respond r) = snd r"
  by (auto simp: respond_def split: prod.splits sum.splits option.splits exn.splits)

lemma respond_fst:
  "fst (respond r) =
     (case fst r of
        Inl (KeyError d) \<Rightarrow> Inr (JSONResponse 404 (Error_bad_params d) [])
      | Inl e \<Rightarrow> Inl e
      | Inr (None, st) \<Rightarrow> Inr (JSONResponse 404 Error_empty_data [(''X-Cache-Status'', st)])
      | Inr (Some j, st) \<Rightarrow> Inr (JSONResponse 200 (Json_data j) [(''X-Cache-Status'', st)]))"
  by (auto simp: respond_def split: prod.splits sum.splits option.splits exn.splits)

lemma invoke_provider_raises:
  assumes nohit: "enable_cache \<Longrightarrow> lookup (t_lookup clk) (hashkey item_id es) (api_cache w) = None"
    and granted: "1 \<le> max_requests (rate_limiter w)"
    and raises: "ak (build_cmd item_id es) = Raises e"
  shows "fst (invoke_ak_api enable_cache ak clk item_id es w) = Inl e
     \<and> provider_calls (snd (invoke_ak_api enable_cache ak clk item_id es w))
         = provider_calls w @ [build_cmd item_id es]
     \<and> (\<forall>k. entry_of k (api_cache (snd (invoke_ak_api enable_cache ak clk item_id es w)))
            = entry_of k (api_cache w))"
proof (cases enable_cache)
  case False
  from fetch_granted [OF granted, where ak = ak and clk = clk and item_id = item_id and es = es]
    raises
  have "fst (fetch ak clk item_id es w) = Inl e"
    and "provider_calls (snd (fetch ak clk item_id es w)) = provider_calls w @ [build_cmd item_id es]"
    by simp_all
  moreover have "api_cache (snd (fetch ak clk item_id es w)) = api_cache w"
    by (rule fetch_cache)
  ultimately show ?thesis using False
    by (cases "fetch ak clk item_id es w") (auto simp: invoke_disabled)
next
  case True
  let ?c = "snd (getitem (t_lookup clk) (hashkey item_id es) (api_cache w))"
  let ?w = "w\<lparr>api_cache := ?c\<rparr>"
  have g: "1 \<le> max_requests (rate_limiter ?w)" using granted by simp
  from fetch_granted [OF g, where ak = ak and clk = clk and item_id = item_id and es = es]
    raises
  have "fst (fetch ak clk item_id es ?w) = Inl e"
    and "provider_calls (snd (fetch ak clk item_id es ?w)) = provider_calls w @ [build_cmd item_id es]"
    by simp_all
  moreover have "api_cache (snd (fetch ak clk item_id es ?w)) = ?c"
    using fetch_cache [where ak = ak and clk = clk and item_id = item_id and es = es and w = ?w]
    by simp
  ultimately show ?thesis using True
    by (cases "fetch ak clk item_id es ?w")
       (auto simp: invoke_miss [OF nohit [OF True]] getitem_entry_of)
qed

lemma invoke_provider_returns:
  assumes miss: "lookup (t_lookup clk) (hashkey item_id es) (api_cache w) = None"
    and room: "1 \<le> maxsize (api_cache w)"
    and granted: "1 \<le> max_requests (rate_limiter w)"
    and returns: "ak (build_cmd item_id es) = Returns r"
  shows "fst (invoke_ak_api True ak clk item_id es w) = Inr (r, ''MISS'')
     \<and> entry_of (hashkey item_id es) (api_cache (snd (invoke_ak_api True ak clk item_id es w)))
         = Some (r, t_store clk + real_of_int (ttl (api_cache w)))"
proof -
  let ?key = "hashkey item_id es"
  let ?c = "snd (getitem (t_lookup clk) ?key (api_cache w))"
  let ?w = "w\<lparr>api_cache := ?c\<rparr>"
  obtain x w' where f: "fetch ak clk item_id es ?w = (x, w')"
    by (cases "fetch ak clk item_id es ?w")
  have g: "1 \<le> max_requests (rate_limiter ?w)" using granted by simp
  from fetch_granted [OF g, where ak = ak and clk = clk and item_id = item_id and es = es]
    returns f
  have x: "x = Inr r" by simp
  have cw': "api_cache w' = ?c"
    using fetch_cache [where ak = ak and clk = clk and item_id = item_id and es = es and w = ?w] f
    by simp
  have "1 \<le> maxsize (api_cache w')" using room by (simp add: cw' getitem_frame)
  from setitem_stores [OF this, where t = "t_store clk" and key = ?key and v = r]
  show ?thesis
    by (cases "setitem (t_store clk) ?key r (api_cache w')")
       (simp add: invoke_miss [OF miss] f x cw' getitem_frame)
qed

section \<open>Caching disabled\<close>

text \<open>
  C7. With caching disabled, \<^verbatim>\<open>invoke_ak_api\<close> leaves the cache as it was, its outcome
  does not depend on what the cache holds, every call that returns reports
  \<^verbatim>\<open>DISABLED\<close> and has evaluated the provider expression in this very call, and whenever
  the limiter admits the call (a limit of at least one request) the provider is invoked.
\<close>

theorem cache_disabled_invoke:
  "api_cache (snd (invoke_ak_api False ak clk item_id es w)) = api_cache w
   \<and> fst (invoke_ak_api False ak clk item_id es (w\<lparr>api_cache := c\<rparr>))
       = fst (invoke_ak_api False ak clk item_id es w)
   \<and> (\<forall>res st. fst (invoke_ak_api False ak clk item_id es w) = Inr (res, st) \<longrightarrow>
         st = ''DISABLED''
       \<and> ak (build_cmd item_id es) = Returns res
       \<and> provider_calls (snd (invoke_ak_api False ak clk item_id es w))
           = provider_calls w @ [build_cmd item_id es])
   \<and> (1 \<le> max_requests (rate_limiter w) \<longrightarrow>
         provider_calls (snd (invoke_ak_api False ak clk item_id es w))
           = provider_calls w @ [build_cmd item_id es])"
proof (intro conjI allI impI)
  show "api_cache (snd (invoke_ak_api False ak clk item_id es w)) = api_cache w"
    using fetch_cache [where ak = ak and clk = clk and item_id = item_id and es = es and w = w]
    by (auto simp: invoke_disabled split: prod.splits sum.splits)
next
  show "fst (invoke_ak_api False ak clk item_id es (w\<lparr>api_cache := c\<rparr>))
          = fst (invoke_ak_api False ak clk item_id es w)"
    using fetch_independent_of_cache [where ak = ak and clk = clk and item_id = item_id and es = es and w = w and c = c]
    by (auto simp: invoke_disabled split: prod.splits sum.splits)
next
  fix res st
  assume r: "fst (invoke_ak_api False ak clk item_id es w) = Inr (res, st)"
  then obtain w' where f: "fetch ak clk item_id es w = (Inr res, w')"
    and s: "st = ''DISABLED''"
    and w': "snd (invoke_ak_api False ak clk item_id es w) = w'"
    by (auto simp: invoke_disabled split: prod.splits sum.splits)
  from s show "st = ''DISABLED''" .
  from fetch_returns [OF f] show "ak (build_cmd item_id es) = Returns res" by simp
  from fetch_returns [OF f] w'
  show "provider_calls (snd (invoke_ak_api False ak clk item_id es w))
          = provider_calls w @ [build_cmd item_id es]" by simp
next
  assume "1 \<le> max_requests (rate_limiter w)"
  from fetch_granted [OF this, where ak = ak and clk = clk and item_id = item_id and es = es]
  show "provider_calls (snd (invoke_ak_api False ak clk item_id es w))
          = provider_calls w @ [build_cmd item_id es]"
    by (auto simp: invoke_disabled split: prod.splits sum.splits)
qed

theorem cache_disabled_invoke_witness:
  "lookup (t_lookup clock1) (hashkey ''stock_x'' None) (api_cache world1) = Some (Some ''[]'')
   \<and> 1 \<le> max_requests (rate_limiter world1)
   \<and> fst (invoke_ak_api False frame_provider clock1 ''stock_x'' None world1)
       = Inr (Some ''[]'', ''DISABLED'')
   \<and> provider_calls (snd (invoke_ak_api False frame_provider clock1 ''stock_x'' None world1))
       = [''ak.stock_x()'', ''ak.stock_x()'']
   \<and> api_cache (snd (invoke_ak_api False frame_provider clock1 ''stock_x'' None world1))
       = api_cache world1"
proof -
  note inst = cache_disabled_invoke
    [where ak = frame_provider and clk = clock1 and item_id = "''stock_x''" and es = None
       and w = world1 and c = cache0]
  have l: "lookup (t_lookup clock1) (hashkey ''stock_x'' None) (api_cache world1) = Some (Some ''[]'')"
    by (simp add: eval_defs)
  have g: "1 \<le> max_requests (rate_limiter world1)"
    by (simp add: world1_def)
  have e: "fst (invoke_ak_api False frame_provider clock1 ''stock_x'' None world1)
             = Inr (Some ''[]'', ''DISABLED'')"
    by (simp add: eval_defs)
  from inst e
  have "provider_calls (snd (invoke_ak_api False frame_provider clock1 ''stock_x'' None world1))
          = provider_calls world1 @ [build_cmd ''stock_x'' None]"
    by blast
  then have p: "provider_calls (snd (invoke_ak_api False frame_provider clock1 ''stock_x'' None world1))
          = [''ak.stock_x()'', ''ak.stock_x()'']"
    by (simp add: world1_def build_cmd_def)
  from inst
  have "api_cache (snd (invoke_ak_api False frame_provider clock1 ''stock_x'' None world1))
          = api_cache world1"
    by blast
  with l g e p show ?thesis by blast
qed

section \<open>Cache idempotence\<close>

text \<open>
  C2. With caching enabled, let a first call for \<open>(item_id, es)\<close> return payload
  \<open>payload\<close> with status \<open>status\<close>, and let a second call for the same pair look the key
  up within the time-to-live of the entry (after a \<^verbatim>\<open>MISS\<close>: before the store time plus
  \<open>ttl\<close>; after a \<^verbatim>\<open>HIT\<close>: before the expiry of the entry that was there). Then the second
  call returns the same payload with status \<^verbatim>\<open>HIT\<close>, evaluates no provider expression and
  does not touch the limiter; the first status is \<^verbatim>\<open>MISS\<close> or \<^verbatim>\<open>HIT\<close>, and \<^verbatim>\<open>HIT\<close> exactly
  when the key was already in the cache, in which case the provider was not invoked at
  all, otherwise once.
\<close>

theorem cached_invoke_idempotent:
  assumes first: "invoke_ak_api True ak_a clk_a item_id es w = (Inr (payload, status), w_mid)"
    and fresh: "status = ''MISS'' \<Longrightarrow>
                  t_lookup clk_b < t_store clk_a + real_of_int (ttl (api_cache w))"
    and seeded: "status = ''HIT'' \<Longrightarrow>
                  \<exists>v e. entry_of (hashkey item_id es) (api_cache w) = Some (v, e)
                        \<and> t_lookup clk_b < e"
  shows "fst (invoke_ak_api True ak_b clk_b item_id es w_mid) = Inr (payload, ''HIT'')
     \<and> provider_calls (snd (invoke_ak_api True ak_b clk_b item_id es w_mid)) = provider_calls w_mid
     \<and> rate_limiter (snd (invoke_ak_api True ak_b clk_b item_id es w_mid)) = rate_limiter w_mid
     \<and> (status = ''MISS'' \<or> status = ''HIT'')
     \<and> (status = ''HIT'' \<longleftrightarrow>
           lookup (t_lookup clk_a) (hashkey item_id es) (api_cache w) \<noteq> None)
     \<and> (status = ''HIT'' \<longrightarrow> provider_calls w_mid = provider_calls w)
     \<and> (status = ''MISS'' \<longrightarrow> provider_calls w_mid = provider_calls w @ [build_cmd item_id es])"
proof (cases "lookup (t_lookup clk_a) (hashkey item_id es) (api_cache w)")
  case None
  from invoke_miss_returns [OF None first]
  have status: "status = ''MISS''"
    and calls: "provider_calls w_mid = provider_calls w @ [build_cmd item_id es]"
    and ent: "entry_of (hashkey item_id es) (api_cache w_mid)
                = Some (payload, t_store clk_a + real_of_int (ttl (api_cache w)))"
    by simp_all
  from fresh [OF status] ent
  have "lookup (t_lookup clk_b) (hashkey item_id es) (api_cache w_mid) = Some payload"
    by (simp add: lookup_entry_of)
  from invoke_hit_frame [OF this] status calls None show ?thesis by simp
next
  case (Some v)
  from invoke_hit [OF Some] first
  have payload: "payload = v" and status: "status = ''HIT''"
    and w_mid: "w_mid = w\<lparr>api_cache := snd (getitem (t_lookup clk_a) (hashkey item_id es) (api_cache w))\<rparr>"
    by simp_all
  from seeded [OF status] obtain v' e
    where e: "entry_of (hashkey item_id es) (api_cache w) = Some (v', e)"
      and t2: "t_lookup clk_b < e" by blast
  from Some e have "v' = v"
    by (auto simp: lookup_entry_of split: if_splits)
  with e t2 have "lookup (t_lookup clk_b) (hashkey item_id es) (api_cache w_mid) = Some payload"
    by (simp add: lookup_entry_of w_mid getitem_entry_of payload)
  from invoke_hit_frame [OF this] status Some w_mid show ?thesis by simp
qed

theorem cached_invoke_idempotent_witness:
  "invoke_ak_api True frame_provider clock0 ''stock_x'' None world0
     = (Inr (Some ''[]'', ''MISS''), world1)
   \<and> t_lookup clock1 < t_store clock0 + real_of_int (ttl (api_cache world0))
   \<and> fst (invoke_ak_api True silent_provider clock1 ''stock_x'' None world1)
       = Inr (Some ''[]'', ''HIT'')
   \<and> provider_calls (snd (invoke_ak_api True silent_provider clock1 ''stock_x'' None world1))
       = [''ak.stock_x()'']"
proof -
  have first: "invoke_ak_api True frame_provider clock0 ''stock_x'' None world0
                 = (Inr (Some ''[]'', ''MISS''), world1)"
    by (simp add: eval_defs)
  have fresh: "t_lookup clock1 < t_store clock0 + real_of_int (ttl (api_cache world0))"
    by (simp add: eval_defs)
  have seeded: "''MISS'' = ''HIT'' \<Longrightarrow>
                  \<exists>v e. entry_of (hashkey ''stock_x'' None) (api_cache world0) = Some (v, e)
                        \<and> t_lookup clock1 < e"
    by simp
  from cached_invoke_idempotent [where ak_b = silent_provider, OF first fresh seeded]
  have "fst (invoke_ak_api True silent_provider clock1 ''stock_x'' None world1)
          = Inr (Some ''[]'', ''HIT'')"
    and "provider_calls (snd (invoke_ak_api True silent_provider clock1 ''stock_x'' None world1))
          = provider_calls world1"
    by simp_all
  with first fresh show ?thesis by (simp add: world1_def)
qed

section \<open>What is stored in the cache\<close>

text \<open>
  C3 as stated fails: a provider call that gives no data (\<^verbatim>\<open>EmptyResult\<close>) does change
  the cache. \<^verbatim>\<open>None\<close> is stored under the key, and the next call is served \<^verbatim>\<open>None\<close> with
  status \<^verbatim>\<open>HIT\<close>.
\<close>

theorem empty_result_is_cached:
  "fst (invoke_ak_api True silent_provider clock0 ''stock_x'' None world0) = Inr (None, ''MISS'')
   \<and> links (api_cache world0) = []
   \<and> links (api_cache (snd (invoke_ak_api True silent_provider clock0 ''stock_x'' None world0)))
       = [((''stock_x'', None), None, 3601)]
   \<and> fst (invoke_ak_api True frame_provider clock1 ''stock_x'' None
            (snd (invoke_ak_api True silent_provider clock0 ''stock_x'' None world0)))
       = Inr (None, ''HIT'')"
  by (simp add: eval_defs)

text \<open>
  C3, amended. With caching enabled: a call that finds its key in the cache leaves every
  entry as it was. A call that misses, with room for at least one entry and a limiter
  that admits it, stores whatever the provider call returns, a payload or \<^verbatim>\<open>None\<close>, under
  the key, expiring \<open>ttl\<close> after the store, and reports \<^verbatim>\<open>MISS\<close>; when the provider call
  raises, the exception leaves \<^verbatim>\<open>invoke_ak_api\<close> and every entry is as it was.
\<close>

theorem invoke_caches_every_returned_result:
  "(\<forall>v. lookup (t_lookup clk) (hashkey item_id es) (api_cache w) = Some v \<longrightarrow>
        (\<forall>k. entry_of k (api_cache (snd (invoke_ak_api True ak clk item_id es w)))
               = entry_of k (api_cache w)))
   \<and> (lookup (t_lookup clk) (hashkey item_id es) (api_cache w) = None
        \<and> 1 \<le> maxsize (api_cache w) \<and> 1 \<le> max_requests (rate_limiter w) \<longrightarrow>
        (\<forall>r. ak (build_cmd item_id es) = Returns r \<longrightarrow>
              fst (invoke_ak_api True ak clk item_id es w) = Inr (r, ''MISS'')
            \<and> entry_of (hashkey item_id es)
                 (api_cache (snd (invoke_ak_api True ak clk item_id es w)))
                = Some (r, t_store clk + real_of_int (ttl (api_cache w))))
      \<and> (\<forall>e. ak (build_cmd item_id es) = Raises e \<longrightarrow>
              fst (invoke_ak_api True ak clk item_id es w) = Inl e
            \<and> (\<forall>k. entry_of k (api_cache (snd (invoke_ak_api True ak clk item_id es w)))
                    = entry_of k (api_cache w))))"
proof (intro conjI allI impI)
  fix v k
  assume "lookup (t_lookup clk) (hashkey item_id es) (api_cache w) = Some v"
  from invoke_hit_frame [OF this, where ak = ak]
  show "entry_of k (api_cache (snd (invoke_ak_api True ak clk item_id es w)))
          = entry_of k (api_cache w)" by blast
next
  fix r
  assume h: "lookup (t_lookup clk) (hashkey item_id es) (api_cache w) = None
        \<and> 1 \<le> maxsize (api_cache w) \<and> 1 \<le> max_requests (rate_limiter w)"
    and r: "ak (build_cmd item_id es) = Returns r"
  from h r invoke_provider_returns [where ak = ak and clk = clk and item_id = item_id and es = es and w = w and r = r]
  show "fst (invoke_ak_api True ak clk item_id es w) = Inr (r, ''MISS'')"
    and "entry_of (hashkey item_id es)
                 (api_cache (snd (invoke_ak_api True ak clk item_id es w)))
                = Some (r, t_store clk + real_of_int (ttl (api_cache w)))"
    by simp_all
next
  fix e
  assume h: "lookup (t_lookup clk) (hashkey item_id es) (api_cache w) = None
        \<and> 1 \<le> maxsize (api_cache w) \<and> 1 \<le> max_requests (rate_limiter w)"
    and e: "ak (build_cmd item_id es) = Raises e"
  from h e invoke_provider_raises [where enable_cache = True and ak = ak and clk = clk and item_id = item_id and es = es and w = w and e = e]
  show "fst (invoke_ak_api True ak clk item_id es w) = Inl e" by simp
  fix k
  from h e invoke_provider_raises [where enable_cache = True and ak = ak and clk = clk and item_id = item_id and es = es and w = w and e = e]
  show "entry_of k (api_cache (snd (invoke_ak_api True ak clk item_id es w)))
                    = entry_of k (api_cache w)" by blast
qed

theorem invoke_caches_every_returned_result_witness:
  "lookup (t_lookup clock0) (hashkey ''stock_x'' None) (api_cache world0) = None
   \<and> 1 \<le> maxsize (api_cache world0) \<and> 1 \<le> max_requests (rate_limiter world0)
   \<and> entry_of (hashkey ''stock_x'' None)
        (api_cache (snd (invoke_ak_api True silent_provider clock0 ''stock_x'' None world0)))
       = Some (None, 3601)
   \<and> fst (invoke_ak_api True rejecting_provider clock0 ''stock_x'' None world0)
       = Inl (KeyError (squote @ ''symbol'' @ squote))
   \<and> entry_of (hashkey ''stock_x'' None)
        (api_cache (snd (invoke_ak_api True rejecting_provider clock0 ''stock_x'' None world0)))
       = None
   \<and> lookup (t_lookup clock1) (hashkey ''stock_x'' None) (api_cache world1) = Some (Some ''[]'')
   \<and> entry_of (hashkey ''stock_x'' None)
        (api_cache (snd (invoke_ak_api True silent_provider clock1 ''stock_x'' None world1)))
       = Some (Some ''[]'', 3601)"
proof -
  have miss: "lookup (t_lookup clock0) (hashkey ''stock_x'' None) (api_cache world0) = None"
    and room: "1 \<le> maxsize (api_cache world0)"
    and granted: "1 \<le> max_requests (rate_limiter world0)"
    by (simp_all add: eval_defs)
  have hit: "lookup (t_lookup clock1) (hashkey ''stock_x'' None) (api_cache world1)
               = Some (Some ''[]'')"
    by (simp add: eval_defs)
  have r: "silent_provider (build_cmd ''stock_x'' None) = Returns None"
    by (simp add: silent_provider_def)
  have x: "rejecting_provider (build_cmd ''stock_x'' None)
             = Raises (KeyError (squote @ ''symbol'' @ squote))"
    by (simp add: rejecting_provider_def)
  from invoke_caches_every_returned_result
         [where ak = silent_provider and clk = clock0 and item_id = "''stock_x''" and es = None
            and w = world0] miss room granted r
  have "entry_of (hashkey ''stock_x'' None)
          (api_cache (snd (invoke_ak_api True silent_provider clock0 ''stock_x'' None world0)))
         = Some (None, t_store clock0 + real_of_int (ttl (api_cache world0)))"
    by blast
  then have a: "entry_of (hashkey ''stock_x'' None)
          (api_cache (snd (invoke_ak_api True silent_provider clock0 ''stock_x'' None world0)))
         = Some (None, 3601)"
    by (simp add: clock0_def world0_def cache0_def)
  from invoke_caches_every_returned_result
         [where ak = rejecting_provider and clk = clock0 and item_id = "''stock_x''" and es = None
            and w = world0] miss room granted x
  have "fst (invoke_ak_api True rejecting_provider clock0 ''stock_x'' None world0)
          = Inl (KeyError (squote @ ''symbol'' @ squote))"
    and "entry_of (hashkey ''stock_x'' None)
          (api_cache (snd (invoke_ak_api True rejecting_provider clock0 ''stock_x'' None world0)))
         = entry_of (hashkey ''stock_x'' None) (api_cache world0)"
    by blast+
  then have b: "fst (invoke_ak_api True rejecting_provider clock0 ''stock_x'' None world0)
          = Inl (KeyError (squote @ ''symbol'' @ squote))"
    and c: "entry_of (hashkey ''stock_x'' None)
          (api_cache (snd (invoke_ak_api True rejecting_provider clock0 ''stock_x'' None world0)))
         = None"
    by (simp_all add: entry_of_def world0_def cache0_def)
  from invoke_caches_every_returned_result
         [where ak = silent_provider and clk = clock1 and item_id = "''stock_x''" and es = None
            and w = world1] hit
  have "entry_of (hashkey ''stock_x'' None)
          (api_cache (snd (invoke_ak_api True silent_provider clock1 ''stock_x'' None world1)))
         = entry_of (hashkey ''stock_x'' None) (api_cache world1)"
    by blast
  then have d: "entry_of (hashkey ''stock_x'' None)
          (api_cache (snd (invoke_ak_api True silent_provider clock1 ''stock_x'' None world1)))
         = Some (Some ''[]'', 3601)"
    by (simp add: entry_of_def world1_def hashkey_def)
  from miss room granted hit a b c d show ?thesis by blast
qed

section \<open>Provider faults in the handlers\<close>

text \<open>
  C8 as stated fails. The handlers sort provider faults by exception class, and the only
  class they catch is \<^verbatim>\<open>KeyError\<close>. What Python raises when a call's arguments do not fit
  the function's parameters (an unexpected or a missing keyword) is \<^verbatim>\<open>TypeError\<close>: it is
  not caught, leaves both handlers unhandled and is never answered 404, although the
  provider expression was evaluated. And a \<^verbatim>\<open>KeyError\<close> raised by a call that was given no
  parameters at all is answered 404 as a parameter error.
\<close>

theorem shape_mismatch_not_answered_as_not_found:
  "failing_provider (build_cmd ''stock_x'' (Some (private_eval_str (req_decoded symbol_request))))
     = Raises (OtherError ''TypeError'')
   \<and> private_root True [''stock_x''] failing_provider clock0 symbol_request ''stock_x'' world0
       = (Inl (OtherError ''TypeError''),
          world0\<lparr>rate_limiter := limiter0\<lparr>request_timestamps := [1000]\<rparr>,
                  provider_calls := [''ak.stock_x(symbol='' @ dquote @ ''000001'' @ dquote @ '')'']\<rparr>)
   \<and> fst (public_root True [''stock_x''] failing_provider clock0 symbol_request ''stock_x''
            world0)
       = Inl (OtherError ''TypeError'')
   \<and> rejecting_provider (build_cmd ''stock_x'' None)
       = Raises (KeyError (squote @ ''symbol'' @ squote))
   \<and> fst (private_root True [''stock_x''] rejecting_provider clock0 no_params ''stock_x'' world0)
       = Inr (JSONResponse 404 (Error_bad_params (squote @ ''symbol'' @ squote)) [])
   \<and> fst (public_root True [''stock_x''] rejecting_provider clock0 no_params ''stock_x'' world0)
       = Inr (JSONResponse 404 (Error_bad_params (squote @ ''symbol'' @ squote)) [])"
  by (simp add: eval_defs handler_defs dquote_def)

text \<open>
  C8, amended. Let a handler (\<^verbatim>\<open>private_root\<close>, or \<^verbatim>\<open>public_root\<close> once its parameter
  string is built) reach the provider for a known operation: the cache does not hold the
  key (or caching is off) and the limiter admits the call. If the provider call raises,
  the provider expression was evaluated exactly once and every cache entry is as it was.
  A \<^verbatim>\<open>KeyError\<close>, the one exception class the handlers catch, is answered with status 404
  and a message that carries the error's text, with or without parameters in the request.
  Every other exception, the \<^verbatim>\<open>TypeError\<close> of a parameter-shape mismatch among them,
  leaves the handler unhandled, for the web framework to answer as a server error.
\<close>

theorem provider_fault_classification:
  assumes member: "item_id \<in> set interface_list"
    and nohit: "enable_cache \<Longrightarrow>
                  lookup (t_lookup clk) (hashkey item_id es) (api_cache w) = None"
    and granted: "1 \<le> max_requests (rate_limiter w)"
    and raises: "ak (build_cmd item_id es) = Raises e"
    and handler:
      "(out = private_root enable_cache interface_list ak clk req item_id w
          \<and> es = passed_params req (private_eval_str (req_decoded req)))
       \<or> (\<exists>s. public_eval_str (req_decoded req) = Inr s
             \<and> out = public_root enable_cache interface_list ak clk req item_id w
             \<and> es = passed_params req s)"
  shows "provider_calls (snd out) = provider_calls w @ [build_cmd item_id es]
     \<and> (\<forall>k. entry_of k (api_cache (snd out)) = entry_of k (api_cache w))
     \<and> (\<forall>d. e = KeyError d \<longrightarrow> fst out = Inr (JSONResponse 404 (Error_bad_params d) []))
     \<and> ((\<forall>d. e \<noteq> KeyError d) \<longrightarrow> fst out = Inl e)"
proof -
  from handler member
  have out: "out = respond (invoke_ak_api enable_cache ak clk item_id es w)"
    by (auto simp: private_root_known public_root_known)
  note inv = invoke_provider_raises [where enable_cache = enable_cache and ak = ak and clk = clk
      and item_id = item_id and es = es and w = w and e = e, OF nohit granted raises]
  from inv have f: "fst out = (case e of KeyError d \<Rightarrow> Inr (JSONResponse 404 (Error_bad_params d) [])
                                | _ \<Rightarrow> Inl e)"
    by (simp add: out respond_fst split: exn.splits)
  from inv have "provider_calls (snd out) = provider_calls w @ [build_cmd item_id es]"
    and "\<forall>k. entry_of k (api_cache (snd out)) = entry_of k (api_cache w)"
    by (simp_all add: out respond_snd)
  moreover from f have "\<forall>d. e = KeyError d \<longrightarrow> fst out = Inr (JSONResponse 404 (Error_bad_params d) [])"
    by simp
  moreover from f have "(\<forall>d. e \<noteq> KeyError d) \<longrightarrow> fst out = Inl e"
    by (cases e) simp_all
  ultimately show ?thesis by blast
qed

theorem provider_fault_classification_witness:
  "''stock_x'' \<in> set [''stock_x'']
   \<and> lookup (t_lookup clock0)
        (hashkey ''stock_x'' (passed_params symbol_request
                               (private_eval_str (req_decoded symbol_request))))
        (api_cache world0) = None
   \<and> 1 \<le> max_requests (rate_limiter world0)
   \<and> rejecting_provider
        (build_cmd ''stock_x'' (passed_params symbol_request
                                 (private_eval_str (req_decoded symbol_request))))
       = Raises (KeyError (squote @ ''symbol'' @ squote))
   \<and> fst (private_root True [''stock_x''] rejecting_provider clock0 symbol_request ''stock_x''
            world0)
       = Inr (JSONResponse 404 (Error_bad_params (squote @ ''symbol'' @ squote)) [])
   \<and> provider_calls (snd (private_root True [''stock_x''] rejecting_provider clock0
                            symbol_request ''stock_x'' world0))
       = [''ak.stock_x(symbol='' @ dquote @ ''000001'' @ dquote @ '')'']
   \<and> public_eval_str (req_decoded symbol_request) = Inr (''symbol='' @ dquote @ ''000001'' @ dquote)
   \<and> failing_provider
        (build_cmd ''stock_x'' (passed_params symbol_request
                                 (''symbol='' @ dquote @ ''000001'' @ dquote)))
       = Raises (OtherError ''TypeError'')
   \<and> fst (public_root False [''stock_x''] failing_provider clock0 symbol_request ''stock_x''
            world0)
       = Inl (OtherError ''TypeError'')"
proof -
  let ?es = "passed_params symbol_request (private_eval_str (req_decoded symbol_request))"
  let ?s = "''symbol='' @ dquote @ ''000001'' @ dquote"
  let ?es' = "passed_params symbol_request ?s"
  have m: "''stock_x'' \<in> set [''stock_x'']" by simp
  have miss: "lookup (t_lookup clock0) (hashkey ''stock_x'' ?es) (api_cache world0) = None"
    by (simp add: eval_defs)
  have g: "1 \<le> max_requests (rate_limiter world0)"
    by (simp add: eval_defs)
  have r: "rejecting_provider (build_cmd ''stock_x'' ?es)
             = Raises (KeyError (squote @ ''symbol'' @ squote))"
    by (simp add: rejecting_provider_def)
  have f: "failing_provider (build_cmd ''stock_x'' ?es') = Raises (OtherError ''TypeError'')"
    by (simp add: failing_provider_def)
  have s: "public_eval_str (req_decoded symbol_request) = Inr ?s"
    by (simp add: handler_defs dquote_def)
  have cmd: "build_cmd ''stock_x'' ?es
               = ''ak.stock_x(symbol='' @ dquote @ ''000001'' @ dquote @ '')''"
    by (simp add: handler_defs build_cmd_def dquote_def)
  have h1: "(private_root True [''stock_x''] rejecting_provider clock0 symbol_request ''stock_x'' world0
              = private_root True [''stock_x''] rejecting_provider clock0 symbol_request ''stock_x'' world0
            \<and> ?es = passed_params symbol_request (private_eval_str (req_decoded symbol_request)))
          \<or> (\<exists>s. public_eval_str (req_decoded symbol_request) = Inr s
                \<and> private_root True [''stock_x''] rejecting_provider clock0 symbol_request ''stock_x'' world0
                  = public_root True [''stock_x''] rejecting_provider clock0 symbol_request ''stock_x'' world0
                \<and> ?es = passed_params symbol_request s)"
    by simp
  have h2: "(public_root False [''stock_x''] failing_provider clock0 symbol_request ''stock_x'' world0
              = private_root False [''stock_x''] failing_provider clock0 symbol_request ''stock_x'' world0
            \<and> ?es' = passed_params symbol_request (private_eval_str (req_decoded symbol_request)))
          \<or> (\<exists>s. public_eval_str (req_decoded symbol_request) = Inr s
                \<and> public_root False [''stock_x''] failing_provider clock0 symbol_request ''stock_x'' world0
                  = public_root False [''stock_x''] failing_provider clock0 symbol_request ''stock_x'' world0
                \<and> ?es' = passed_params symbol_request s)"
    using s by simp
  from provider_fault_classification
         [where enable_cache = True and interface_list = "[''stock_x'']" and w = world0
            and clk = clock0 and req = symbol_request, OF m miss g r h1]
  have a: "fst (private_root True [''stock_x''] rejecting_provider clock0 symbol_request ''stock_x''
            world0)
       = Inr (JSONResponse 404 (Error_bad_params (squote @ ''symbol'' @ squote)) [])"
    and b: "provider_calls (snd (private_root True [''stock_x''] rejecting_provider clock0
                            symbol_request ''stock_x'' world0))
       = provider_calls world0 @ [build_cmd ''stock_x'' ?es]"
    by simp_all
  have nohit: "False \<Longrightarrow> lookup (t_lookup clock0) (hashkey ''stock_x'' ?es') (api_cache world0) = None"
    by simp
  from provider_fault_classification
         [where enable_cache = False and interface_list = "[''stock_x'']" and w = world0
            and clk = clock0 and req = symbol_request, OF m nohit g f h2]
  have c: "fst (public_root False [''stock_x''] failing_provider clock0 symbol_request ''stock_x''
            world0)
       = Inl (OtherError ''TypeError'')"
    by simp
  from b have b': "provider_calls (snd (private_root True [''stock_x''] rejecting_provider clock0
                            symbol_request ''stock_x'' world0))
       = [''ak.stock_x(symbol='' @ dquote @ ''000001'' @ dquote @ '')'']"
    by (simp only: cmd) (simp add: world0_def)
  from m miss g r a b' s f c show ?thesis by blast
qed

section \<open>Unknown operations\<close>

text \<open>
  C6. For an operation that is not in the provider's capability list at call time, both
  handlers answer 404 "interface not found" and leave the whole state as it was (no
  provider expression evaluated, no grant recorded, cache untouched), whatever the cache,
  the limiter and the caching switch are.
\<close>

theorem unknown_operation_not_found:
  assumes "item_id \<notin> set interface_list"
  shows "private_root enable_cache interface_list ak clk req item_id w
           = (Inr (JSONResponse 404 Error_interface_not_found []), w)
     \<and> public_root enable_cache interface_list ak clk req item_id w
           = (Inr (JSONResponse 404 Error_interface_not_found []), w)"
  using assms by (simp add: private_root_def public_root_def)

theorem unknown_operation_not_found_witness:
  "''not_a_real_operation'' \<notin> set [''stock_x'']
   \<and> private_root True [''stock_x''] frame_provider clock1 symbol_request
        ''not_a_real_operation'' world1
       = (Inr (JSONResponse 404 Error_interface_not_found []), world1)
   \<and> public_root False [''stock_x''] frame_provider clock1 no_params
        ''not_a_real_operation'' stale_world
       = (Inr (JSONResponse 404 Error_interface_not_found []), stale_world)"
proof -
  have n: "''not_a_real_operation'' \<notin> set [''stock_x'']" by simp
  from unknown_operation_not_found
         [OF n, where enable_cache = True and ak = frame_provider and clk = clock1
            and req = symbol_request and w = world1]
       unknown_operation_not_found
         [OF n, where enable_cache = False and ak = frame_provider and clk = clock1
            and req = no_params and w = stale_world]
       n
  show ?thesis by blast
qed

text \<open>
  C4 as stated fails: with caching enabled and an unexpired entry under the key of an
  operation that is no longer in the capability list, \<^verbatim>\<open>invoke_ak_api\<close> alone would
  return the entry with status \<^verbatim>\<open>HIT\<close>, but both handlers answer 404 and never reach the
  cache.
\<close>

theorem cached_payload_refused_for_unknown_operation:
  "lookup (t_lookup clock1) (hashkey ''gone'' None) (api_cache stale_world) = Some (Some ''[]'')
   \<and> fst (invoke_ak_api True frame_provider clock1 ''gone'' None stale_world)
       = Inr (Some ''[]'', ''HIT'')
   \<and> private_root True [''stock_x''] frame_provider clock1 no_params ''gone'' stale_world
       = (Inr (JSONResponse 404 Error_interface_not_found []), stale_world)
   \<and> public_root True [''stock_x''] frame_provider clock1 no_params ''gone'' stale_world
       = (Inr (JSONResponse 404 Error_interface_not_found []), stale_world)"
  by (simp add: eval_defs handler_defs)

text \<open>
  C4, amended. The handlers validate the capability list first: an unknown operation is
  answered 404 with caching enabled too, whatever the cache holds. Only for a known
  operation is the cache consulted, and then a hit is answered with the cached payload and
  status \<^verbatim>\<open>HIT\<close>, with no provider call and no grant.
\<close>

theorem capability_checked_before_cache:
  "(item_id \<notin> set interface_list \<longrightarrow>
      fst (private_root True interface_list ak clk req item_id w)
        = Inr (JSONResponse 404 Error_interface_not_found [])
    \<and> fst (public_root True interface_list ak clk req item_id w)
        = Inr (JSONResponse 404 Error_interface_not_found []))
   \<and> (item_id \<in> set interface_list \<longrightarrow>
        (\<forall>v. lookup (t_lookup clk)
                (hashkey item_id (passed_params req (private_eval_str (req_decoded req))))
                (api_cache w) = Some v \<longrightarrow>
              fst (private_root True interface_list ak clk req item_id w) = Inr (hit_response v)
            \<and> provider_calls (snd (private_root True interface_list ak clk req item_id w))
                = provider_calls w
            \<and> rate_limiter (snd (private_root True interface_list ak clk req item_id w))
                = rate_limiter w)
      \<and> (\<forall>s v. public_eval_str (req_decoded req) = Inr s
              \<and> lookup (t_lookup clk) (hashkey item_id (passed_params req s)) (api_cache w)
                  = Some v \<longrightarrow>
              fst (public_root True interface_list ak clk req item_id w) = Inr (hit_response v)
            \<and> provider_calls (snd (public_root True interface_list ak clk req item_id w))
                = provider_calls w
            \<and> rate_limiter (snd (public_root True interface_list ak clk req item_id w))
                = rate_limiter w))"
proof (intro conjI impI allI)
  assume "item_id \<notin> set interface_list"
  then show "fst (private_root True interface_list ak clk req item_id w)
               = Inr (JSONResponse 404 Error_interface_not_found [])"
    and "fst (public_root True interface_list ak clk req item_id w)
               = Inr (JSONResponse 404 Error_interface_not_found [])"
    by (simp_all add: private_root_def public_root_def)
next
  fix v
  assume m: "item_id \<in> set interface_list"
    and h: "lookup (t_lookup clk)
                (hashkey item_id (passed_params req (private_eval_str (req_decoded req))))
                (api_cache w) = Some v"
  note hit = invoke_hit_frame [OF h, where ak = ak]
  from hit show "fst (private_root True interface_list ak clk req item_id w) = Inr (hit_response v)"
    by (simp add: private_root_known [OF m] respond_fst hit_response_def split: option.splits)
  from hit show "provider_calls (snd (private_root True interface_list ak clk req item_id w))
                = provider_calls w"
    by (simp add: private_root_known [OF m] respond_snd)
  from hit show "rate_limiter (snd (private_root True interface_list ak clk req item_id w))
                = rate_limiter w"
    by (simp add: private_root_known [OF m] respond_snd)
next
  fix s v
  assume m: "item_id \<in> set interface_list"
    and sh: "public_eval_str (req_decoded req) = Inr s
              \<and> lookup (t_lookup clk) (hashkey item_id (passed_params req s)) (api_cache w)
                  = Some v"
  from sh have s: "public_eval_str (req_decoded req) = Inr s"
    and h: "lookup (t_lookup clk) (hashkey item_id (passed_params req s)) (api_cache w) = Some v"
    by simp_all
  note hit = invoke_hit_frame [OF h, where ak = ak]
  from hit show "fst (public_root True interface_list ak clk req item_id w) = Inr (hit_response v)"
    by (simp add: public_root_known [OF m s] respond_fst hit_response_def split: option.splits)
  from hit show "provider_calls (snd (public_root True interface_list ak clk req item_id w))
                = provider_calls w"
    by (simp add: public_root_known [OF m s] respond_snd)
  from hit show "rate_limiter (snd (public_root True interface_list ak clk req item_id w))
                = rate_limiter w"
    by (simp add: public_root_known [OF m s] respond_snd)
qed

theorem capability_checked_before_cache_witness:
  "''gone'' \<notin> set [''stock_x'']
   \<and> fst (private_root True [''stock_x''] frame_provider clock1 no_params ''gone'' stale_world)
       = Inr (JSONResponse 404 Error_interface_not_found [])
   \<and> ''stock_x'' \<in> set [''stock_x'']
   \<and> lookup (t_lookup clock1)
        (hashkey ''stock_x'' (passed_params no_params (private_eval_str (req_decoded no_params))))
        (api_cache world1) = Some (Some ''[]'')
   \<and> fst (private_root True [''stock_x''] silent_provider clock1 no_params ''stock_x'' world1)
       = Inr (JSONResponse 200 (Json_data ''[]'') [(''X-Cache-Status'', ''HIT'')])
   \<and> public_eval_str (req_decoded no_params) = Inr dquote
   \<and> lookup (t_lookup clock1) (hashkey ''stock_x'' (passed_params no_params dquote))
        (api_cache world1) = Some (Some ''[]'')
   \<and> fst (public_root True [''stock_x''] silent_provider clock1 no_params ''stock_x'' world1)
       = Inr (JSONResponse 200 (Json_data ''[]'') [(''X-Cache-Status'', ''HIT'')])"
proof -
  note unknown = capability_checked_before_cache
    [where item_id = "''gone''" and interface_list = "[''stock_x'']" and ak = frame_provider
       and clk = clock1 and req = no_params and w = stale_world]
  note known = capability_checked_before_cache
    [where item_id = "''stock_x''" and interface_list = "[''stock_x'']" and ak = silent_provider
       and clk = clock1 and req = no_params and w = world1]
  have n: "''gone'' \<notin> set [''stock_x'']" and m: "''stock_x'' \<in> set [''stock_x'']"
    by simp_all
  have l: "lookup (t_lookup clock1)
        (hashkey ''stock_x'' (passed_params no_params (private_eval_str (req_decoded no_params))))
        (api_cache world1) = Some (Some ''[]'')"
    by (simp add: eval_defs handler_defs)
  have s: "public_eval_str (req_decoded no_params) = Inr dquote"
    by (simp add: handler_defs dquote_def)
  have l': "lookup (t_lookup clock1) (hashkey ''stock_x'' (passed_params no_params dquote))
        (api_cache world1) = Some (Some ''[]'')"
    by (simp add: eval_defs handler_defs)
  from unknown n
  have a: "fst (private_root True [''stock_x''] frame_provider clock1 no_params ''gone'' stale_world)
       = Inr (JSONResponse 404 Error_interface_not_found [])"
    by blast
  from known m l
  have "fst (private_root True [''stock_x''] silent_provider clock1 no_params ''stock_x'' world1)
       = Inr (hit_response (Some ''[]''))"
    by blast
  then have b: "fst (private_root True [''stock_x''] silent_provider clock1 no_params ''stock_x'' world1)
       = Inr (JSONResponse 200 (Json_data ''[]'') [(''X-Cache-Status'', ''HIT'')])"
    by (simp add: hit_response_def)
  from known m s l'
  have "fst (public_root True [''stock_x''] silent_provider clock1 no_params ''stock_x'' world1)
       = Inr (hit_response (Some ''[]''))"
    by blast
  then have c: "fst (public_root True [''stock_x''] silent_provider clock1 no_params ''stock_x'' world1)
       = Inr (JSONResponse 200 (Json_data ''[]'') [(''X-Cache-Status'', ''HIT'')])"
    by (simp add: hit_response_def)
  from n m l s l' a b c show ?thesis by blast
qed

section \<open>Expiry, capacity and eviction in the cache\<close>

lemma find_in_set: "find P xs = Some x \<Longrightarrow> x \<in> set xs \<and> P x"
  by (induction xs) (auto split: if_splits)

lemma evict_subset: "set (evict m xs) \<subseteq> set xs"
  by (induction xs) auto

lemma evict_fits: "1 \<le> m \<Longrightarrow> int (length (evict m xs)) + 1 \<le> m"
  by (induction xs) auto

lemma evict_id: "int (length xs) + 1 \<le> m \<Longrightarrow> evict m xs = xs"
  by (cases xs) auto

lemma evict_full: "int (length xs) = m \<Longrightarrow> 1 \<le> m \<Longrightarrow> evict m xs = tl xs"
  by (cases xs) (auto simp: evict_id)

lemma setitem_frame:
  "maxsize (snd (setitem t key v c)) = maxsize c \<and> ttl (snd (setitem t key v c)) = ttl c"
  by (simp add: setitem_def expire_def Let_def)

lemma cache_step_frame:
  "maxsize (cache_step op c) = maxsize c \<and> ttl (cache_step op c) = ttl c"
  by (cases op) (simp_all add: getitem_frame setitem_frame)

lemma getitem_links_subset: "set (links (snd (getitem t key c))) \<subseteq> set (links c)"
  by (auto simp: getitem_def Let_def split: option.splits dest: find_in_set)

lemma setitem_links_subset:
  "set (links (snd (setitem t key v c)))
     \<subseteq> set (links c) \<union> {(key, v, t + real_of_int (ttl c))}"
  using evict_subset [of "maxsize c" "filter (\<lambda>(k, v, expires). t < expires) (links c)"]
  by (auto simp: setitem_def expire_def Let_def)

lemma setitem_only_entry:
  assumes "fst (setitem T key v c) = Inr ()"
    and "(k, v', e) \<in> set (links (snd (setitem T key v c)))" and "k = key"
  shows "e = T + real_of_int (ttl c)"
  using assms by (auto simp: setitem_def expire_def Let_def split: if_splits)

lemma expires_by_step:
  assumes "expires_by key b c" and "\<forall>t v. op \<noteq> Set t key v"
  shows "expires_by key b (cache_step op c)"
proof (cases op)
  case (Get t k)
  with assms(1) getitem_links_subset [of t k c] show ?thesis
    by (auto simp: expires_by_def)
next
  case (Set t k v)
  with assms(2) have "k \<noteq> key" by auto
  with Set assms(1) setitem_links_subset [of t k v c] show ?thesis
    by (fastforce simp: expires_by_def)
qed

lemma expires_by_run:
  assumes "expires_by key b c" and "\<forall>op \<in> set ops. \<forall>t v. op \<noteq> Set t key v"
  shows "expires_by key b (cache_run ops c)"
  using assms
proof (induction ops arbitrary: c)
  case Nil
  then show ?case by (simp add: cache_run_def)
next
  case (Cons op ops)
  from Cons.prems have "expires_by key b (cache_step op c)"
    by (simp add: expires_by_step)
  with Cons.prems have "expires_by key b (cache_run ops (cache_step op c))"
    by (intro Cons.IH) simp_all
  then show ?case by (simp add: cache_run_def)
qed

lemma expires_by_lookup:
  assumes "expires_by key b c" and "b \<le> t"
  shows "lookup t key c = None"
proof (cases "find (\<lambda>l. fst l = key) (links c)")
  case None
  then show ?thesis by (simp add: lookup_def)
next
  case (Some l)
  then have "l \<in> set (links c)" and "fst l = key" by (auto dest: find_in_set)
  with assms have "\<not> t < snd (snd l)" by (fastforce simp: expires_by_def)
  with Some show ?thesis by (cases l) (simp add: lookup_def)
qed

lemma stored_entry_unreachable:
  assumes stored: "fst (setitem T key v c) = Inr ()"
    and others: "\<forall>op \<in> set ops. \<forall>t' v'. op \<noteq> Set t' key v'"
    and late: "T + real_of_int (ttl c) \<le> t"
  shows "lookup t key (cache_run ops (snd (setitem T key v c))) = None"
proof -
  have "expires_by key (T + real_of_int (ttl c)) (snd (setitem T key v c))"
    using setitem_only_entry [OF stored] by (fastforce simp: expires_by_def)
  then have "expires_by key (T + real_of_int (ttl c)) (cache_run ops (snd (setitem T key v c)))"
    using others by (rule expires_by_run)
  then show ?thesis using late by (rule expires_by_lookup)
qed

lemma getitem_length: "length (links (snd (getitem t key c))) \<le> length (links c)"
proof (cases "find (\<lambda>l. fst l = key) (links c)")
  case None
  then show ?thesis by (simp add: getitem_def)
next
  case (Some l)
  then have "l \<in> set (links c)" and "fst l = key" by (auto dest: find_in_set)
  then have "length (filter (\<lambda>l. fst l \<noteq> key) (links c)) < length (links c)"
    by (intro length_filter_less [where x = l]) simp_all
  with Some show ?thesis by (cases l) (simp add: getitem_def Let_def)
qed

lemma setitem_length:
  assumes "int (length (links c)) \<le> maxsize c"
  shows "int (length (links (snd (setitem t key v c)))) \<le> maxsize c"
proof -
  let ?xs = "filter (\<lambda>(k, v, expires). t < expires) (links c)"
  have le: "int (length ?xs) \<le> maxsize c"
    using assms length_filter_le [of "\<lambda>(k, v, expires). t < expires" "links c"] by linarith
  show ?thesis
  proof (cases "1 > maxsize c")
    case True
    with le show ?thesis by (simp add: setitem_def expire_def Let_def)
  next
    case room: False
    show ?thesis
    proof (cases "key \<in> set (map fst ?xs)")
      case True
      then obtain l where "l \<in> set ?xs" and "fst l = key" by auto
      then have "length (filter (\<lambda>l. fst l \<noteq> key) ?xs) < length ?xs"
        by (intro length_filter_less [where x = l]) simp_all
      with le room True show ?thesis
        by (simp add: setitem_def expire_def Let_def)
    next
      case False
      from room have "int (length (evict (maxsize c) ?xs)) + 1 \<le> maxsize c"
        by (intro evict_fits) simp
      moreover have "length (filter (\<lambda>l. fst l \<noteq> key) (evict (maxsize c) ?xs))
                       \<le> length (evict (maxsize c) ?xs)"
        by simp
      ultimately have "int (length (filter (\<lambda>l. fst l \<noteq> key) (evict (maxsize c) ?xs))) + 1
                         \<le> maxsize c"
        by linarith
      with room False show ?thesis
        by (simp add: setitem_def expire_def Let_def)
    qed
  qed
qed

lemma cache_run_length:
  assumes "int (length (links c)) \<le> maxsize c"
  shows "int (length (links (cache_run ops c))) \<le> maxsize c"
  using assms
proof (induction ops arbitrary: c)
  case Nil
  then show ?case by (simp add: cache_run_def)
next
  case (Cons op ops)
  have "int (length (links (cache_step op c))) \<le> maxsize (cache_step op c)"
  proof (cases op)
    case (Get t k)
    with Cons.prems getitem_length [of t k c] show ?thesis
      by (simp add: getitem_frame)
  next
    case (Set t k v)
    with Cons.prems setitem_length [of c t k v] show ?thesis
      by (simp add: setitem_frame)
  qed
  then have "int (length (links (cache_run ops (cache_step op c)))) \<le> maxsize (cache_step op c)"
    by (rule Cons.IH)
  then show ?case by (simp add: cache_run_def cache_step_frame)
qed

lemma setitem_evicts_lru:
  assumes "1 \<le> maxsize c"
    and "key \<notin> fst ` set (links (expire t c))"
    and "int (length (links (expire t c))) = maxsize c"
  shows "links (snd (setitem t key v c))
           = tl (links (expire t c)) @ [(key, v, t + real_of_int (ttl c))]"
proof -
  let ?xs = "links (expire t c)"
  have "evict (maxsize c) ?xs = tl ?xs"
    using assms(3,1) by (rule evict_full)
  moreover have "filter (\<lambda>l. fst l \<noteq> key) (tl ?xs) = tl ?xs"
    using assms(2) by (cases ?xs) (auto simp: filter_id_conv)
  ultimately show ?thesis using assms(1,2)
    by (simp add: setitem_def Let_def expire_def)
qed

lemma getitem_most_recent:
  assumes "find (\<lambda>l. fst l = key) (links c) = Some l"
  shows "last (links (snd (getitem t key c))) = l"
  using assms by (cases l) (simp add: getitem_def Let_def)

lemma invoke_miss_fetches:
  assumes miss: "lookup (t_lookup clk) (hashkey item_id es) (api_cache w) = None"
    and granted: "1 \<le> max_requests (rate_limiter w)"
  shows "provider_calls (snd (invoke_ak_api True ak clk item_id es w))
           = provider_calls w @ [build_cmd item_id es]
     \<and> (\<forall>p s. fst (invoke_ak_api True ak clk item_id es w) = Inr (p, s) \<longrightarrow> s = ''MISS'')"
proof -
  let ?w = "w\<lparr>api_cache := snd (getitem (t_lookup clk) (hashkey item_id es) (api_cache w))\<rparr>"
  have g: "1 \<le> max_requests (rate_limiter ?w)" using granted by simp
  from fetch_granted [OF g, where ak = ak and clk = clk and item_id = item_id and es = es]
  have "provider_calls (snd (fetch ak clk item_id es ?w))
          = provider_calls w @ [build_cmd item_id es]"
    by simp
  then show ?thesis
    by (auto simp: invoke_miss [OF miss] split: prod.splits sum.splits)
qed

text \<open>
  C5. An entry stored at time \<open>T\<close> is unreachable from \<open>T + ttl\<close> on: after any further
  lookups, and stores under other keys, a lookup of its key at a time \<open>t \<ge> T + ttl\<close>
  misses (\<^verbatim>\<open>KeyError\<close>), and a call of \<^verbatim>\<open>invoke_ak_api\<close> for that key at such a time
  evaluates the provider expression afresh and can only report \<^verbatim>\<open>MISS\<close> (given a limiter
  that admits it). A cache within its capacity stays within it under every run of
  operations. A store of a new key into a cache that is full after expiry drops the first
  entry of \<open>links\<close>, the least recently used one: every lookup that finds its key moves the
  entry to the end.
\<close>

theorem ttl_expiry_and_capacity:
  "(fst (setitem T key v c) = Inr ()
      \<and> (\<forall>op \<in> set ops. \<forall>t' v'. op \<noteq> Set t' key v')
      \<and> T + real_of_int (ttl c) \<le> t \<longrightarrow>
        lookup t key (cache_run ops (snd (setitem T key v c))) = None
      \<and> fst (getitem t key (cache_run ops (snd (setitem T key v c)))) = Inl (KeyError []))
   \<and> (fst (setitem T (hashkey item_id es) p c0) = Inr ()
      \<and> (\<forall>op \<in> set ops0. \<forall>t' v'. op \<noteq> Set t' (hashkey item_id es) v')
      \<and> api_cache w = cache_run ops0 (snd (setitem T (hashkey item_id es) p c0))
      \<and> T + real_of_int (ttl c0) \<le> t_lookup clk
      \<and> 1 \<le> max_requests (rate_limiter w) \<longrightarrow>
        provider_calls (snd (invoke_ak_api True ak clk item_id es w))
          = provider_calls w @ [build_cmd item_id es]
      \<and> (\<forall>p' s. fst (invoke_ak_api True ak clk item_id es w) = Inr (p', s) \<longrightarrow> s = ''MISS''))
   \<and> (int (length (links c)) \<le> maxsize c \<longrightarrow>
        int (length (links (cache_run ops c))) \<le> maxsize c
      \<and> maxsize (cache_run ops c) = maxsize c)
   \<and> (1 \<le> maxsize c \<and> key \<notin> fst ` set (links (expire t c))
      \<and> int (length (links (expire t c))) = maxsize c \<longrightarrow>
        links (snd (setitem t key v c))
          = tl (links (expire t c)) @ [(key, v, t + real_of_int (ttl c))])
   \<and> (\<forall>l. find (\<lambda>l. fst l = key) (links c) = Some l \<longrightarrow>
          last (links (snd (getitem t key c))) = l)"
proof (intro conjI)
  show "fst (setitem T key v c) = Inr ()
      \<and> (\<forall>op \<in> set ops. \<forall>t' v'. op \<noteq> Set t' key v')
      \<and> T + real_of_int (ttl c) \<le> t \<longrightarrow>
        lookup t key (cache_run ops (snd (setitem T key v c))) = None
      \<and> fst (getitem t key (cache_run ops (snd (setitem T key v c)))) = Inl (KeyError [])"
    by (simp add: stored_entry_unreachable getitem_result)
next
  show "fst (setitem T (hashkey item_id es) p c0) = Inr ()
      \<and> (\<forall>op \<in> set ops0. \<forall>t' v'. op \<noteq> Set t' (hashkey item_id es) v')
      \<and> api_cache w = cache_run ops0 (snd (setitem T (hashkey item_id es) p c0))
      \<and> T + real_of_int (ttl c0) \<le> t_lookup clk
      \<and> 1 \<le> max_requests (rate_limiter w) \<longrightarrow>
        provider_calls (snd (invoke_ak_api True ak clk item_id es w))
          = provider_calls w @ [build_cmd item_id es]
      \<and> (\<forall>p' s. fst (invoke_ak_api True ak clk item_id es w) = Inr (p', s) \<longrightarrow> s = ''MISS'')"
  proof
    assume h: "fst (setitem T (hashkey item_id es) p c0) = Inr ()
      \<and> (\<forall>op \<in> set ops0. \<forall>t' v'. op \<noteq> Set t' (hashkey item_id es) v')
      \<and> api_cache w = cache_run ops0 (snd (setitem T (hashkey item_id es) p c0))
      \<and> T + real_of_int (ttl c0) \<le> t_lookup clk
      \<and> 1 \<le> max_requests (rate_limiter w)"
    then have "lookup (t_lookup clk) (hashkey item_id es) (api_cache w) = None"
      by (simp add: stored_entry_unreachable)
    moreover from h have "1 \<le> max_requests (rate_limiter w)" by simp
    ultimately show "provider_calls (snd (invoke_ak_api True ak clk item_id es w))
          = provider_calls w @ [build_cmd item_id es]
      \<and> (\<forall>p' s. fst (invoke_ak_api True ak clk item_id es w) = Inr (p', s) \<longrightarrow> s = ''MISS'')"
      by (rule invoke_miss_fetches)
  qed
next
  have "maxsize (cache_run ops c) = maxsize c"
    by (induction ops arbitrary: c) (simp_all add: cache_run_def cache_step_frame)
  then show "int (length (links c)) \<le> maxsize c \<longrightarrow>
        int (length (links (cache_run ops c))) \<le> maxsize c
      \<and> maxsize (cache_run ops c) = maxsize c"
    by (simp add: cache_run_length)
next
  show "1 \<le> maxsize c \<and> key \<notin> fst ` set (links (expire t c))
      \<and> int (length (links (expire t c))) = maxsize c \<longrightarrow>
        links (snd (setitem t key v c))
          = tl (links (expire t c)) @ [(key, v, t + real_of_int (ttl c))]"
    using setitem_evicts_lru [of c key t v] by blast
next
  show "\<forall>l. find (\<lambda>l. fst l = key) (links c) = Some l \<longrightarrow>
          last (links (snd (getitem t key c))) = l"
    by (simp add: getitem_most_recent)
qed

theorem ttl_expiry_and_capacity_witness:
  "fst (setitem 1 key_x (Some ''[]'') cache0) = Inr ()
   \<and> lookup 3600 key_x (cache_run idle_ops (snd (setitem 1 key_x (Some ''[]'') cache0)))
       = Some (Some ''[]'')
   \<and> lookup 3601 key_x (cache_run idle_ops (snd (setitem 1 key_x (Some ''[]'') cache0)))
       = None
   \<and> provider_calls (snd (invoke_ak_api True frame_provider late_clock ''stock_x'' None idle_world))
       = [''ak.stock_x()'', ''ak.stock_x()'']
   \<and> int (length (links small_cache)) \<le> maxsize small_cache
   \<and> int (length (links (cache_run (lru_ops @ [Set 3 key_c (Some ''[3]'')]) small_cache))) \<le> 2
   \<and> links (cache_run lru_ops small_cache)
       = [(key_b, Some ''[2]'', 3601), (key_a, Some ''[1]'', 3600)]
   \<and> links (snd (setitem 3 key_c (Some ''[3]'') (cache_run lru_ops small_cache)))
       = [(key_a, Some ''[1]'', 3600), (key_c, Some ''[3]'', 3603)]"
proof -
  let ?c = "cache_run idle_ops (snd (setitem 1 key_x (Some ''[]'') cache0))"
  have st: "fst (setitem 1 key_x (Some ''[]'') cache0) = Inr ()"
    by (simp add: cache_defs)
  have ot: "\<forall>op \<in> set idle_ops. \<forall>t' v'. op \<noteq> Set t' key_x v'"
    by (simp add: idle_ops_def key_x_def)
  have early: "lookup 3600 key_x ?c = Some (Some ''[]'')"
    by (simp add: cache_defs idle_ops_def key_x_def)
  have late: "(1::real) + real_of_int (ttl cache0) \<le> 3601"
    by (simp add: cache0_def)
  have h1: "fst (setitem 1 key_x (Some ''[]'') cache0) = Inr ()
      \<and> (\<forall>op \<in> set idle_ops. \<forall>t' v'. op \<noteq> Set t' key_x v')
      \<and> 1 + real_of_int (ttl cache0) \<le> 3601"
    using st ot late by (intro conjI)
  from ttl_expiry_and_capacity
         [where T = 1 and key = key_x and v = "Some ''[]''" and c = cache0 and ops = idle_ops
            and t = 3601, THEN conjunct1, THEN mp, OF h1]
  have gone: "lookup 3601 key_x ?c = None"
    by (rule conjunct1)
  have kx: "hashkey ''stock_x'' None = key_x"
    by (simp add: hashkey_def key_x_def)
  have w: "api_cache idle_world = ?c"
    by (simp add: idle_world_def)
  have g: "1 \<le> max_requests (rate_limiter idle_world)"
    by (simp add: idle_world_def limiter0_def)
  have lt: "(1::real) + real_of_int (ttl cache0) \<le> t_lookup late_clock"
    by (simp add: cache0_def late_clock_def)
  have h2: "fst (setitem 1 (hashkey ''stock_x'' None) (Some ''[]'') cache0) = Inr ()
      \<and> (\<forall>op \<in> set idle_ops. \<forall>t' v'. op \<noteq> Set t' (hashkey ''stock_x'' None) v')
      \<and> api_cache idle_world
          = cache_run idle_ops (snd (setitem 1 (hashkey ''stock_x'' None) (Some ''[]'') cache0))
      \<and> 1 + real_of_int (ttl cache0) \<le> t_lookup late_clock
      \<and> 1 \<le> max_requests (rate_limiter idle_world)"
    unfolding kx using st ot w lt g by (intro conjI)
  from ttl_expiry_and_capacity
         [where T = 1 and item_id = "''stock_x''" and es = None and p = "Some ''[]''"
            and ?c0.0 = cache0 and ?ops0.0 = idle_ops and w = idle_world and clk = late_clock
            and ak = frame_provider, THEN conjunct2, THEN conjunct1, THEN mp, OF h2]
  have "provider_calls (snd (invoke_ak_api True frame_provider late_clock ''stock_x'' None idle_world))
          = provider_calls idle_world @ [build_cmd ''stock_x'' None]"
    by (rule conjunct1)
  then have again: "provider_calls
        (snd (invoke_ak_api True frame_provider late_clock ''stock_x'' None idle_world))
          = [''ak.stock_x()'', ''ak.stock_x()'']"
    by (simp add: idle_world_def build_cmd_def)
  have cap0: "int (length (links small_cache)) \<le> maxsize small_cache"
    by (simp add: small_cache_def)
  from ttl_expiry_and_capacity
         [where c = small_cache and ops = "lru_ops @ [Set 3 key_c (Some ''[3]'')]",
          THEN conjunct2, THEN conjunct2, THEN conjunct1, THEN mp, OF cap0]
  have "int (length (links (cache_run (lru_ops @ [Set 3 key_c (Some ''[3]'')]) small_cache)))
          \<le> maxsize small_cache"
    by (rule conjunct1)
  then have cap: "int (length (links (cache_run (lru_ops @ [Set 3 key_c (Some ''[3]'')])
                                        small_cache))) \<le> 2"
    by (simp add: small_cache_def)
  have full: "links (cache_run lru_ops small_cache)
       = [(key_b, Some ''[2]'', 3601), (key_a, Some ''[1]'', 3600)]"
    by (simp add: cache_defs)
  have m: "maxsize (cache_run lru_ops small_cache) = 2"
    and tt: "ttl (cache_run lru_ops small_cache) = 3600"
    by (simp_all add: cache_defs)
  have ex: "links (expire 3 (cache_run lru_ops small_cache))
       = [(key_b, Some ''[2]'', 3601), (key_a, Some ''[1]'', 3600)]"
    by (simp add: expire_def full)
  have pre: "1 \<le> maxsize (cache_run lru_ops small_cache)
      \<and> key_c \<notin> fst ` set (links (expire 3 (cache_run lru_ops small_cache)))
      \<and> int (length (links (expire 3 (cache_run lru_ops small_cache))))
          = maxsize (cache_run lru_ops small_cache)"
    by (simp add: ex m) (simp add: key_a_def key_b_def key_c_def)
  from ttl_expiry_and_capacity
         [where c = "cache_run lru_ops small_cache" and key = key_c and t = 3
            and v = "Some ''[3]''",
          THEN conjunct2, THEN conjunct2, THEN conjunct2, THEN conjunct1, THEN mp, OF pre]
  have "links (snd (setitem 3 key_c (Some ''[3]'') (cache_run lru_ops small_cache)))
          = tl (links (expire 3 (cache_run lru_ops small_cache)))
            @ [(key_c, Some ''[3]'', 3 + real_of_int (ttl (cache_run lru_ops small_cache)))]"
    .
  then have lru: "links (snd (setitem 3 key_c (Some ''[3]'') (cache_run lru_ops small_cache)))
       = [(key_a, Some ''[1]'', 3600), (key_c, Some ''[3]'', 3603)]"
    by (simp add: ex tt)
  from st early gone again cap0 cap full lru show ?thesis by (intro conjI)
qed

section \<open>The rate limiter\<close>

text \<open>
  At the edge of the window (the oldest stamp is exactly one window old) a full deque
  neither loses its oldest stamp nor makes the call sleep.
\<close>

lemma acquire_at_boundary:
  assumes "request_timestamps rl = oldest # rest"
    and "max_requests rl \<le> int (length (oldest # rest))"
    and "oldest + real_of_int (window_seconds rl) = now"
  shows "acquire now j wk rl = (Inr None, rl\<lparr>request_timestamps := oldest # rest @ [now]\<rparr>)"
  using assms by (auto simp: acquire_def clean_old_requests_def Let_def)

lemma dropWhile_head_kept:
  "dropWhile P xs = y # ys \<Longrightarrow> \<not> P y"
  by (induction xs) (auto split: if_splits)

lemma dropWhile_subset: "set (dropWhile P xs) \<subseteq> set xs"
  by (induction xs) auto

lemma acquire_keeps_capacity:
  assumes cap: "int (length (request_timestamps rl)) \<le> max_requests rl"
    and slept: "\<forall>d. fst (acquire now j wk rl) = Inr (Some d) \<longrightarrow> now + d \<le> wk"
    and jit: "0 < j"
    and off: "\<forall>t \<in> set (request_timestamps rl). t + real_of_int (window_seconds rl) \<noteq> now"
  shows "int (length (request_timestamps (snd (acquire now j wk rl)))) \<le> max_requests rl"
proof -
  let ?W = "real_of_int (window_seconds rl)"
  let ?ts = "dropWhile (\<lambda>t. t < now - ?W) (request_timestamps rl)"
  have len: "int (length ?ts) \<le> max_requests rl"
    using cap length_dropWhile_le [of "\<lambda>t. t < now - ?W" "request_timestamps rl"] by linarith
  show ?thesis
  proof (cases "int (length ?ts) \<ge> max_requests rl")
    case False
    then show ?thesis by (simp add: acquire_def clean_old_requests_def Let_def)
  next
    case full: True
    show ?thesis
    proof (cases ?ts)
      case Nil
      with full len show ?thesis
        by (simp add: acquire_def clean_old_requests_def Let_def del: dropWhile_eq_Nil_conv)
    next
      case (Cons oldest rest)
      then have "\<not> oldest < now - ?W" by (rule dropWhile_head_kept)
      moreover have "oldest \<in> set (request_timestamps rl)"
        using Cons dropWhile_subset [of "\<lambda>t. t < now - ?W" "request_timestamps rl"] by auto
      with off have "oldest + ?W \<noteq> now" by blast
      ultimately have wait: "oldest + ?W - now > 0" by linarith
      with full Cons
      have res: "acquire now j wk rl
               = (Inr (Some (oldest + ?W - now + j)),
                  rl\<lparr>request_timestamps := dropWhile (\<lambda>t. t < wk - ?W) (oldest # rest) @ [wk]\<rparr>)"
        by (simp add: acquire_def clean_old_requests_def Let_def)
      with slept have "now + (oldest + ?W - now + j) \<le> wk" by simp
      with jit have "oldest < wk - ?W" by linarith
      then have "length (dropWhile (\<lambda>t. t < wk - ?W) (oldest # rest)) \<le> length rest"
        using length_dropWhile_le [of "\<lambda>t. t < wk - ?W" rest] by simp
      with len Cons show ?thesis by (simp add: res)
    qed
  qed
qed

text \<open>
  Away from the edge of the window the limiter does what its docstring says: in a steady
  run from an empty deque the grants are in time order and each lies more than the window
  after the grant \<^verbatim>\<open>max_requests\<close> places before it.
\<close>

lemma acquire_shape:
  assumes res: "acquire t j wk rl = (Inr s, rl')"
    and slept: "\<forall>d. s = Some d \<longrightarrow> t + d \<le> wk" and jit: "0 < j"
  shows "\<exists>gone kept.
           request_timestamps rl = gone @ kept
         \<and> request_timestamps rl' = kept @ [case s of Some d \<Rightarrow> wk | None \<Rightarrow> t]
         \<and> (\<forall>x \<in> set gone. x + real_of_int (window_seconds rl)
                               < (case s of Some d \<Rightarrow> wk | None \<Rightarrow> t))
         \<and> t \<le> (case s of Some d \<Rightarrow> wk | None \<Rightarrow> t)
         \<and> max_requests rl' = max_requests rl \<and> window_seconds rl' = window_seconds rl"
proof -
  let ?W = "real_of_int (window_seconds rl)"
  let ?P = "\<lambda>x. x < t - ?W"
  let ?Q = "\<lambda>x. x < wk - ?W"
  let ?ts = "request_timestamps rl"
  have split1: "?ts = takeWhile ?P ?ts @ dropWhile ?P ?ts" by simp
  have gone1: "\<forall>x \<in> set (takeWhile ?P ?ts). x + ?W < t"
    by (auto dest: set_takeWhileD)
  show ?thesis
  proof (cases s)
    case None
    with res have "request_timestamps rl' = dropWhile ?P ?ts @ [t]"
      and "max_requests rl' = max_requests rl" and "window_seconds rl' = window_seconds rl"
      by (auto simp: acquire_def clean_old_requests_def Let_def split: if_splits list.splits)
    with None split1 gone1 show ?thesis by (intro exI [of _ "takeWhile ?P ?ts"] exI [of _ "dropWhile ?P ?ts"]) simp
  next
    case (Some d)
    with res obtain oldest rest where ts1: "dropWhile ?P ?ts = oldest # rest"
      and d: "d = oldest + ?W - t + j" and pos: "0 < oldest + ?W - t"
      and r: "request_timestamps rl' = dropWhile ?Q (oldest # rest) @ [wk]"
      and fr: "max_requests rl' = max_requests rl" "window_seconds rl' = window_seconds rl"
      by (auto simp: acquire_def clean_old_requests_def Let_def split: if_splits list.splits)
    from slept Some d pos jit have tw: "t < wk" by auto
    have split2: "oldest # rest = takeWhile ?Q (oldest # rest) @ dropWhile ?Q (oldest # rest)"
      by (simp only: takeWhile_dropWhile_id)
    have gone2: "\<forall>x \<in> set (takeWhile ?Q (oldest # rest)). x + ?W < wk"
      by (auto dest: set_takeWhileD)
    have "?ts = (takeWhile ?P ?ts @ takeWhile ?Q (oldest # rest)) @ dropWhile ?Q (oldest # rest)"
      using split1 split2 ts1 by (metis append.assoc)
    moreover have "\<forall>x \<in> set (takeWhile ?P ?ts @ takeWhile ?Q (oldest # rest)). x + ?W < wk"
      using gone1 gone2 tw by fastforce
    ultimately show ?thesis using Some r fr tw
      by (intro exI [of _ "takeWhile ?P ?ts @ takeWhile ?Q (oldest # rest)"]
                exI [of _ "dropWhile ?Q (oldest # rest)"]) simp
  qed
qed


lemma acquire_step_inv:
  assumes inv: "limiter_inv hist prev rl" and m: "1 \<le> max_requests rl"
    and mono: "prev \<le> t" and jit: "0 < j"
    and off: "\<forall>s \<in> set (request_timestamps rl). s + real_of_int (window_seconds rl) \<noteq> t"
    and res: "acquire t j wk rl = (Inr s, rl')"
    and slept: "\<forall>d. s = Some d \<longrightarrow> t + d \<le> wk"
  shows "limiter_inv (hist @ [last (request_timestamps rl')])
           (case s of Some d \<Rightarrow> wk | None \<Rightarrow> t) rl'
     \<and> max_requests rl' = max_requests rl \<and> window_seconds rl' = window_seconds rl"
proof -
  let ?W = "real_of_int (window_seconds rl)"
  let ?T = "case s of Some d \<Rightarrow> wk | None \<Rightarrow> t"
  let ?m = "nat (max_requests rl)"
  from acquire_shape [OF res slept jit] obtain gone kept
    where ts: "request_timestamps rl = gone @ kept"
      and ts': "request_timestamps rl' = kept @ [?T]"
      and gone: "\<forall>x \<in> set gone. x + ?W < ?T"
      and tT: "t \<le> ?T"
      and fr: "max_requests rl' = max_requests rl" "window_seconds rl' = window_seconds rl"
    by blast
  from inv obtain dropped
    where hist: "hist = dropped @ request_timestamps rl"
      and dropped: "\<forall>x \<in> set dropped. x + ?W < prev"
      and below: "\<forall>x \<in> set hist. x \<le> prev"
      and srt: "sorted hist"
      and cap: "int (length (request_timestamps rl)) \<le> max_requests rl"
      and sp: "spaced ?m ?W hist"
    by (auto simp: limiter_inv_def)
  have last: "last (request_timestamps rl') = ?T" by (simp add: ts')
  have h': "hist @ [?T] = (dropped @ gone) @ request_timestamps rl'"
    by (simp add: hist ts ts')
  have old: "\<forall>x \<in> set (dropped @ gone). x + ?W < ?T"
    using dropped gone mono tT by fastforce
  have below': "\<forall>x \<in> set (hist @ [?T]). x \<le> ?T"
    using below mono tT by fastforce
  have srt': "sorted (hist @ [?T])"
    using srt below mono tT by (fastforce simp: sorted_append)
  have sl: "\<forall>d. fst (acquire t j wk rl) = Inr (Some d) \<longrightarrow> t + d \<le> wk"
    using res slept by simp
  from acquire_keeps_capacity [OF cap sl jit off] res
  have cap': "int (length (request_timestamps rl')) \<le> max_requests rl"
    by simp
  have sp': "spaced ?m ?W (hist @ [?T])"
    unfolding spaced_def
  proof (intro allI impI)
    fix i
    assume i: "i + ?m < length (hist @ [?T])"
    show "(hist @ [?T]) ! i + ?W < (hist @ [?T]) ! (i + ?m)"
    proof (cases "i + ?m < length hist")
      case True
      with sp have "hist ! i + ?W < hist ! (i + ?m)" by (simp add: spaced_def)
      with True show ?thesis by (simp add: nth_append)
    next
      case False
      with i have eq: "i + ?m = length hist" by simp
      from m have "0 < ?m" by simp
      from cap' have "length (request_timestamps rl') \<le> ?m" by linarith
      moreover have "length (dropped @ gone) + length (request_timestamps rl') = length hist + 1"
        using h' by (metis length_append length_append_singleton Suc_eq_plus1)
      ultimately have "i < length (dropped @ gone)" using eq by linarith
      then have "((dropped @ gone) @ request_timestamps rl') ! i \<in> set (dropped @ gone)"
        by (simp only: nth_append_left nth_mem)
      then have "(hist @ [?T]) ! i \<in> set (dropped @ gone)"
        by (simp only: h')
      with old have "(hist @ [?T]) ! i + ?W < ?T" by blast
      moreover have "(hist @ [?T]) ! (i + ?m) = ?T" by (simp add: eq)
      ultimately show ?thesis by simp
    qed
  qed
  have "limiter_inv (hist @ [?T]) ?T rl'"
    unfolding limiter_inv_def fr
    using h' old below' srt' cap' sp' by blast
  with last fr show ?thesis by simp
qed

lemma limiter_inv_run:
  assumes "limiter_inv hist prev rl" and "1 \<le> max_requests rl" and "steady prev readings rl"
  shows "sorted (hist @ grant_times readings rl)
     \<and> spaced (nat (max_requests rl)) (real_of_int (window_seconds rl))
         (hist @ grant_times readings rl)"
  using assms
proof (induction readings arbitrary: hist prev rl)
  case Nil
  then show ?case by (simp add: limiter_inv_def)
next
  case (Cons reading rest)
  obtain t j wk where reading: "reading = (t, j, wk)" by (cases reading)
  obtain r rl' where res: "acquire t j wk rl = (r, rl')" by (cases "acquire t j wk rl")
  show ?case
  proof (cases r)
    case (Inl e)
    with Cons.prems(1) reading res show ?thesis by (simp add: limiter_inv_def)
  next
    case (Inr s)
    let ?T = "case s of Some d \<Rightarrow> wk | None \<Rightarrow> t"
    from Cons.prems(3) reading res Inr
    have mono: "prev \<le> t" and jit: "0 < j"
      and off: "\<forall>x \<in> set (request_timestamps rl). x + real_of_int (window_seconds rl) \<noteq> t"
      and slept: "\<forall>d. s = Some d \<longrightarrow> t + d \<le> wk"
      and rest: "steady ?T rest rl'"
      by (auto split: option.splits)
    from res Inr have res': "acquire t j wk rl = (Inr s, rl')" by simp
    from acquire_step_inv [OF Cons.prems(1,2) mono jit off res' slept]
    have inv': "limiter_inv (hist @ [last (request_timestamps rl')]) ?T rl'"
      and fr: "max_requests rl' = max_requests rl" "window_seconds rl' = window_seconds rl"
      by simp_all
    from Cons.prems(2) fr have m': "1 \<le> max_requests rl'" by simp
    from Cons.IH [OF inv' m' rest] fr reading res' show ?thesis by simp
  qed
qed

lemma acquire_run_spaced:
  assumes "1 \<le> max_requests rl" and "request_timestamps rl = []"
    and "steady prev readings rl"
  shows "sorted (grant_times readings rl)
     \<and> spaced (nat (max_requests rl)) (real_of_int (window_seconds rl))
         (grant_times readings rl)"
proof -
  have "limiter_inv [] prev rl"
    using assms(1,2) by (simp add: limiter_inv_def spaced_def)
  from limiter_inv_run [OF this assms(1,3)] show ?thesis by simp
qed

text \<open>
  Stamps in time order that are spaced by the window: no trailing window holds more than
  \<open>m\<close> of them. So a steady run from an empty deque keeps the cap in every window.
\<close>

lemma filter_upto_sorted:
  "sorted xs \<Longrightarrow> \<forall>g \<in> set xs. lo < g \<Longrightarrow>
   filter (\<lambda>g. lo < g \<and> g \<le> hi) xs = takeWhile (\<lambda>g. g \<le> hi) xs"
proof (induction xs)
  case Nil
  then show ?case by simp
next
  case (Cons x xs)
  show ?case
  proof (cases "x \<le> hi")
    case True
    with Cons show ?thesis by simp
  next
    case False
    with Cons.prems(1) have "\<forall>g \<in> set xs. \<not> g \<le> hi" by fastforce
    with False show ?thesis by (simp add: filter_empty_conv)
  qed
qed

lemma filter_window_sorted:
  "sorted xs \<Longrightarrow>
   filter (\<lambda>g. lo < g \<and> g \<le> hi) xs
     = takeWhile (\<lambda>g. g \<le> hi) (dropWhile (\<lambda>g. g \<le> (lo::real)) xs)"
proof (induction xs)
  case Nil
  then show ?case by simp
next
  case (Cons x xs)
  show ?case
  proof (cases "x \<le> lo")
    case True
    with Cons show ?thesis by simp
  next
    case False
    with Cons.prems have "\<forall>g \<in> set (x # xs). lo < g" by fastforce
    from filter_upto_sorted [OF Cons.prems this] False show ?thesis by simp
  qed
qed

lemma spaced_drop:
  assumes "spaced m w xs"
  shows "spaced m w (drop i xs)"
  unfolding spaced_def
proof (intro allI impI)
  fix k
  assume "k + m < length (drop i xs)"
  then have k: "(i + k) + m < length xs" by simp
  with assms have "xs ! (i + k) + w < xs ! ((i + k) + m)"
    unfolding spaced_def by blast
  moreover from k have "drop i xs ! k = xs ! (i + k)"
    and "drop i xs ! (k + m) = xs ! ((i + k) + m)"
    by (simp_all add: add.assoc)
  ultimately show "drop i xs ! k + w < drop i xs ! (k + m)" by simp
qed

lemma spaced_window:
  assumes srt: "sorted gs" and sp: "spaced m w gs" and m: "0 < m"
  shows "grants_within w t gs \<le> m"
proof (rule ccontr)
  let ?ds = "dropWhile (\<lambda>g. g \<le> t - w) gs"
  let ?ts = "takeWhile (\<lambda>g. g \<le> t) ?ds"
  assume "\<not> grants_within w t gs \<le> m"
  then have len: "m < length ?ts"
    using filter_window_sorted [OF srt, of "t - w" t] by (simp add: grants_within_def)
  also have "length ?ts \<le> length ?ds" by (rule length_takeWhile_le)
  finally have mds: "m < length ?ds" .
  then have ne: "?ds \<noteq> []" by (metis list.size(3) not_less0)
  then have "\<not> hd ?ds \<le> t - w" by (rule hd_dropWhile)
  with ne have lo: "t - w < ?ds ! 0" by (simp add: hd_conv_nth)
  have "?ts ! m \<in> set ?ts" using len by simp
  then have "?ts ! m \<le> t" by (auto dest: set_takeWhileD)
  with len have hi: "?ds ! m \<le> t" by (simp add: takeWhile_nth)
  have "spaced m w ?ds"
    using sp by (simp add: dropWhile_eq_drop spaced_drop)
  then have "0 + m < length ?ds \<longrightarrow> ?ds ! 0 + w < ?ds ! (0 + m)"
    unfolding spaced_def by (rule spec)
  with mds have "?ds ! 0 + w < ?ds ! m" by simp
  with lo hi show False by linarith
qed

lemma acquire_run_window_cap:
  assumes "1 \<le> max_requests rl" and "request_timestamps rl = []"
    and "steady prev readings rl"
  shows "grants_within (real_of_int (window_seconds rl)) t (grant_times readings rl)
           \<le> nat (max_requests rl)"
proof -
  from acquire_run_spaced [OF assms]
  have "sorted (grant_times readings rl)"
    and "spaced (nat (max_requests rl)) (real_of_int (window_seconds rl))
           (grant_times readings rl)"
    by simp_all
  moreover from assms(1) have "0 < nat (max_requests rl)" by simp
  ultimately show ?thesis by (rule spaced_window)
qed

text \<open>
  The run of the spec's scenario (two requests per 60 seconds, three calls at 0, 1 and 2
  seconds): the third call sleeps 58.25 seconds and is granted at 60.25.
\<close>

lemma steady_run_example:
  "steady 0 scenario_readings scenario_limiter
   \<and> acquire_run scenario_readings scenario_limiter
       = (Inr [None, None, Some (233 / 4)],
          \<lparr>max_requests = 2, window_seconds = 60, request_timestamps = [1, 241 / 4]\<rparr>)
   \<and> grant_times scenario_readings scenario_limiter = [0, 1, 241 / 4]
   \<and> spaced 2 60 (grant_times scenario_readings scenario_limiter)"
proof -
  have s: "steady 0 scenario_readings scenario_limiter"
    by (simp add: scenario_readings_def scenario_limiter_def acquire_def
          clean_old_requests_def Let_def)
  have r: "acquire_run scenario_readings scenario_limiter
       = (Inr [None, None, Some (233 / 4)],
          \<lparr>max_requests = 2, window_seconds = 60, request_timestamps = [1, 241 / 4]\<rparr>)"
    by (simp add: scenario_readings_def scenario_limiter_def acquire_def
          clean_old_requests_def Let_def)
  have g: "grant_times scenario_readings scenario_limiter = [0, 1, 241 / 4]"
    by (simp add: scenario_readings_def scenario_limiter_def acquire_def
          clean_old_requests_def Let_def)
  have m: "1 \<le> max_requests scenario_limiter"
    and e: "request_timestamps scenario_limiter = []"
    by (simp_all add: scenario_limiter_def)
  from acquire_run_spaced [OF m e s]
  have "spaced 2 60 (grant_times scenario_readings scenario_limiter)"
    by (simp add: scenario_limiter_def)
  with s r g show ?thesis by (intro conjI)
qed

text \<open>With a limit below one and an empty deque, line 116 raises instead of blocking.\<close>

lemma acquire_without_quota_raises:
  assumes "max_requests rl \<le> 0" and "request_timestamps rl = []"
  shows "fst (acquire t j wk rl) = Inl IndexError"
  using assms by (simp add: acquire_def clean_old_requests_def Let_def)

text \<open>
  C1 fails on the code at the edge of the window. With \<^verbatim>\<open>max_requests = 1\<close> and
  \<^verbatim>\<open>window_seconds = 60\<close>, take three calls of \<^verbatim>\<open>acquire\<close> whose clock readings are 0, 60
  and 60. The stamp 0 is not purged at time 60 (line 101 purges only stamps strictly older
  than the cutoff), the deque is full, but the wait computed at line 117 is 0, so line
  119 does not sleep: all three calls are granted without any sleep, two of them at the
  same instant, and the trailing window of 60 seconds that ends at 60 holds two grants.
\<close>

theorem boundary_grants_exceed_limit:
  "acquire_run boundary_readings boundary_limiter
     = (Inr [None, None, None],
        \<lparr>max_requests = 1, window_seconds = 60, request_timestamps = [0, 60, 60]\<rparr>)
   \<and> grant_times boundary_readings boundary_limiter = [0, 60, 60]
   \<and> grants_within 60 60 (grant_times boundary_readings boundary_limiter) = 2
   \<and> max_requests boundary_limiter = 1"
  by (simp add: boundary_readings_def boundary_limiter_def acquire_def clean_old_requests_def
        grants_within_def Let_def)

end
